theory Spec2Isabelle
  imports Main
begin

section \<open>JavaScript strings\<close>

text \<open>
  A JavaScript string is a sequence of UTF-16 code units; every operation of the source
  (\<^verbatim>\<open>replace\<close>, \<^verbatim>\<open>split\<close>, \<^verbatim>\<open>trim\<close>, regular expressions without the
  \<^verbatim>\<open>u\<close> flag) works on code units. A string is modelled as the list of its code units,
  each a natural number; \<open>code_unit\<close> is the code of an ASCII character and \<open>str\<close>
  turns an ASCII literal into that list.
\<close>

type_synonym jsstring = "nat list"

fun code_unit :: "char \<Rightarrow> nat" where
  "code_unit (Char b0 b1 b2 b3 b4 b5 b6 b7) =
     (if b0 then 1 else 0) + (if b1 then 2 else 0) + (if b2 then 4 else 0) +
     (if b3 then 8 else 0) + (if b4 then 16 else 0) + (if b5 then 32 else 0) +
     (if b6 then 64 else 0) + (if b7 then 128 else 0)"

definition str :: "string \<Rightarrow> jsstring" where
  "str cs = map code_unit cs"

text \<open>The character classes the regular expressions of the source use.\<close>

definition is_space :: "nat \<Rightarrow> bool" where
  \<comment> \<open>\<^verbatim>\<open>\s\<close>, which is also the set \<^verbatim>\<open>trim()\<close> strips: white space and line terminators\<close>
  "is_space c = (c = 9 \<or> c = 10 \<or> c = 11 \<or> c = 12 \<or> c = 13 \<or> c = 32 \<or> c = 160 \<or>
     c = 5760 \<or> (8192 \<le> c \<and> c \<le> 8202) \<or> c = 8232 \<or> c = 8233 \<or> c = 8239 \<or>
     c = 8287 \<or> c = 12288 \<or> c = 65279)"

definition is_digit :: "nat \<Rightarrow> bool" where
  \<comment> \<open>\<^verbatim>\<open>\d\<close> and \<^verbatim>\<open>[0-9]\<close>\<close>
  "is_digit c = (48 \<le> c \<and> c \<le> 57)"

definition is_upper :: "nat \<Rightarrow> bool" where
  \<comment> \<open>\<^verbatim>\<open>[A-Z]\<close>\<close>
  "is_upper c = (65 \<le> c \<and> c \<le> 90)"

definition is_lower :: "nat \<Rightarrow> bool" where
  \<comment> \<open>\<^verbatim>\<open>[a-z]\<close>\<close>
  "is_lower c = (97 \<le> c \<and> c \<le> 122)"

definition is_word :: "nat \<Rightarrow> bool" where
  \<comment> \<open>\<^verbatim>\<open>\w\<close>: letters, digits and the underscore\<close>
  "is_word c = (is_upper c \<or> is_lower c \<or> is_digit c \<or> c = 95)"

definition is_line_term :: "nat \<Rightarrow> bool" where
  \<comment> \<open>the line terminators, which \<^verbatim>\<open>.\<close> does not match\<close>
  "is_line_term c = (c = 10 \<or> c = 13 \<or> c = 8232 \<or> c = 8233)"

definition is_crlf :: "nat \<Rightarrow> bool" where
  \<comment> \<open>\<^verbatim>\<open>[\r\n]\<close>\<close>
  "is_crlf c = (c = 13 \<or> c = 10)"

definition is_ascii :: "nat \<Rightarrow> bool" where
  \<comment> \<open>\<^verbatim>\<open>[\x00-\x7F]\<close>\<close>
  "is_ascii c = (c < 128)"

text \<open>\<^verbatim>\<open>s.trim()\<close>: white space is dropped at both ends.\<close>

definition trim :: "jsstring \<Rightarrow> jsstring" where
  "trim s = rev (dropWhile is_space (rev (dropWhile is_space s)))"

text \<open>\<^verbatim>\<open>s.startsWith(p)\<close>.\<close>

definition startsWith :: "jsstring \<Rightarrow> jsstring \<Rightarrow> bool" where
  "startsWith s p = (take (length p) s = p)"

text \<open>\<^verbatim>\<open>s.replace(/c/g, r)\<close> for a pattern that is one code unit \<open>c\<close>.\<close>

definition replace_unit :: "nat \<Rightarrow> jsstring \<Rightarrow> jsstring \<Rightarrow> jsstring" where
  "replace_unit c r s = concat (map (\<lambda>x. if x = c then r else [x]) s)"

text \<open>
  \<^verbatim>\<open>s.replace(/ab/g, r)\<close> for a pattern that is the two code units \<open>a\<close>, \<open>b\<close>: the scan
  goes from left to right and resumes after each match, so matches do not overlap.
\<close>

fun replace_pair :: "nat \<Rightarrow> nat \<Rightarrow> jsstring \<Rightarrow> jsstring \<Rightarrow> jsstring" where
  "replace_pair a b r (x # y # s) =
     (if x = a \<and> y = b then r @ replace_pair a b r s else x # replace_pair a b r (y # s))"
| "replace_pair a b r s = s"

text \<open>\<^verbatim>\<open>s.replace(/[class]/g, '')\<close>: every code unit of the class is deleted.\<close>

definition delete_class :: "(nat \<Rightarrow> bool) \<Rightarrow> jsstring \<Rightarrow> jsstring" where
  "delete_class p s = filter (\<lambda>c. \<not> p c) s"

text \<open>
  \<^verbatim>\<open>s.split(/[class]+/)\<close>: the separators are the maximal runs of the class. The result
  always has at least one element; a separator at either end gives an empty first or
  last element. \<open>cur\<close> is the piece being collected, \<open>insep\<close> says that the scan is
  inside a separator.
\<close>

fun split_runs_from :: "(nat \<Rightarrow> bool) \<Rightarrow> jsstring \<Rightarrow> bool \<Rightarrow> jsstring \<Rightarrow> jsstring list" where
  "split_runs_from p cur insep [] = [cur]"
| "split_runs_from p cur insep (c # cs) =
     (if p c then (if insep then split_runs_from p cur True cs
                   else cur # split_runs_from p [] True cs)
      else split_runs_from p (cur @ [c]) False cs)"

definition split_runs :: "(nat \<Rightarrow> bool) \<Rightarrow> jsstring \<Rightarrow> jsstring list" where
  "split_runs p s = split_runs_from p [] False s"

text \<open>\<^verbatim>\<open>s.split(';')\<close>: a separator of one code unit.\<close>

fun split_unit_from :: "nat \<Rightarrow> jsstring \<Rightarrow> jsstring \<Rightarrow> jsstring list" where
  "split_unit_from d cur [] = [cur]"
| "split_unit_from d cur (c # cs) =
     (if c = d then cur # split_unit_from d [] cs else split_unit_from d (cur @ [c]) cs)"

definition split_unit :: "nat \<Rightarrow> jsstring \<Rightarrow> jsstring list" where
  "split_unit d s = split_unit_from d [] s"

text \<open>\<^verbatim>\<open>xs.join(sep)\<close>.\<close>

fun join :: "jsstring \<Rightarrow> jsstring list \<Rightarrow> jsstring" where
  "join sep [] = []"
| "join sep [x] = x"
| "join sep (x # y # ys) = x @ sep @ join sep (y # ys)"

text \<open>
  \<^verbatim>\<open>s.toUpperCase()\<close>. ASCII letters are mapped exactly. Of the code units outside ASCII,
  the ones whose upper case consists of ASCII letters only are mapped as Unicode's
  SpecialCasing does (sharp s, dotless i, long s and the Latin ligatures); every other
  code unit outside ASCII is left as it is: its upper case holds a code unit outside
  ASCII too, so the result differs from each upper-case ASCII name it is compared with
  either way.
\<close>

definition upper_unit :: "nat \<Rightarrow> jsstring" where
  "upper_unit c =
     (if is_lower c then [c - 32]
      else if c = 223 then str ''SS''
      else if c = 305 then str ''I''
      else if c = 383 then str ''S''
      else if c = 64256 then str ''FF''
      else if c = 64257 then str ''FI''
      else if c = 64258 then str ''FL''
      else if c = 64259 then str ''FFI''
      else if c = 64260 then str ''FFL''
      else if c = 64261 then str ''ST''
      else if c = 64262 then str ''ST''
      else [c])"

definition toUpperCase :: "jsstring \<Rightarrow> jsstring" where
  "toUpperCase s = concat (map upper_unit s)"

section \<open>The vCard codec (VCardHandler)\<close>

text \<open>
  A contact is a JavaScript object: a map from property names to strings. Reading a
  property the object does not have gives \<^verbatim>\<open>undefined\<close>, here \<open>None\<close>.
\<close>

datatype field = F_name | F_phone | F_email | F_company | F_eventTag

type_synonym contact = "field \<rightharpoonup> jsstring"

datatype error = TypeError

text \<open>JavaScript's truthiness of a property: \<^verbatim>\<open>undefined\<close> and the empty string are falsy.\<close>

definition truthy :: "jsstring option \<Rightarrow> bool" where
  "truthy v = (case v of None \<Rightarrow> False | Some s \<Rightarrow> s \<noteq> [])"

text \<open>
  \<^verbatim>\<open>escape(value)\<close>: backslash, semicolon, comma and newline get a backslash, in this
  order; carriage returns are removed.
\<close>

definition escape :: "jsstring \<Rightarrow> jsstring" where
  "escape v =
     (if v = [] then []
      else replace_unit 13 []
            (replace_unit 10 [92, 110]
              (replace_unit 44 [92, 44]
                (replace_unit 59 [92, 59]
                  (replace_unit 92 [92, 92] v)))))"

text \<open>
  \<^verbatim>\<open>unescape(value)\<close>: the four replacements in the order of the source: backslash-n,
  backslash-comma, backslash-semicolon, backslash-backslash.
\<close>

definition unescape :: "jsstring \<Rightarrow> jsstring" where
  "unescape v =
     (if v = [] then []
      else replace_pair 92 92 [92]
            (replace_pair 92 59 [59]
              (replace_pair 92 44 [44]
                (replace_pair 92 110 [10] v))))"

text \<open>
  \<^verbatim>\<open>generate(contact)\<close>. Every property is read as the source reads it: a property that
  is missing or empty adds no line.
\<close>

definition name_lines :: "jsstring \<Rightarrow> jsstring list" where
  "name_lines n =
     (let nameParts = split_runs is_space (trim n) in
      [str ''FN:'' @ escape n,
       (if length nameParts > 1
        then str ''N:'' @ escape (last nameParts) @ str '';'' @
             escape (join (str '' '') (butlast nameParts)) @ str '';;;''
        else str ''N:'' @ escape n @ str '';;;'')])"

definition generate_lines :: "contact \<Rightarrow> jsstring list" where
  "generate_lines c =
     [str ''BEGIN:VCARD'', str ''VERSION:3.0''] @
     (case c F_name of None \<Rightarrow> [] | Some n \<Rightarrow> if n = [] then [] else name_lines n) @
     (case c F_phone of None \<Rightarrow> [] | Some p \<Rightarrow>
        if p = [] then []
        else [str ''TEL;TYPE=CELL:'' @
              escape (delete_class (\<lambda>x. is_space x \<or> x = 45 \<or> x = 40 \<or> x = 41) p)]) @
     (case c F_email of None \<Rightarrow> [] | Some e \<Rightarrow>
        if e = [] then [] else [str ''EMAIL;TYPE=INTERNET:'' @ escape e]) @
     (case c F_company of None \<Rightarrow> [] | Some org \<Rightarrow>
        if org = [] then [] else [str ''ORG:'' @ escape org]) @
     (case c F_eventTag of None \<Rightarrow> [] | Some t \<Rightarrow>
        if t = [] then [] else [str ''X-EVENT-TAG:'' @ escape t]) @
     [str ''END:VCARD'']"

definition generate :: "contact \<Rightarrow> jsstring" where
  "generate c = join [13, 10] (generate_lines c)"

text \<open>
  \<^verbatim>\<open>line.match(/^([^:]+):(.+)$/)\<close>: the first group is the non-empty run of code units
  before the first colon, the second group is everything after that colon, which must
  be non-empty and free of line terminators. \<open>None\<close> is \<^verbatim>\<open>null\<close>.
\<close>

definition match_line :: "jsstring \<Rightarrow> (jsstring \<times> jsstring) option" where
  "match_line l =
     (let fieldPart = takeWhile (\<lambda>c. c \<noteq> 58) l in
      if fieldPart = [] then None
      else (case dropWhile (\<lambda>c. c \<noteq> 58) l of
              [] \<Rightarrow> None
            | _ # v \<Rightarrow> if v \<noteq> [] \<and> list_all (\<lambda>c. \<not> is_line_term c) v
                       then Some (fieldPart, v) else None))"

text \<open>
  The \<^verbatim>\<open>N\<close> case of \<^verbatim>\<open>parse\<close>: \<^verbatim>\<open>unescape(nameParts[1])\<close> and \<^verbatim>\<open>unescape(nameParts[0])\<close>
  joined by a space and trimmed when there are two parts or more.
\<close>

definition name_of_N :: "contact \<Rightarrow> jsstring \<Rightarrow> contact" where
  "name_of_N c v =
     (case split_unit 59 v of
        l # f # _ \<Rightarrow> c(F_name \<mapsto> trim (unescape f @ [32] @ unescape l))
      | [p] \<Rightarrow> if p = [] then c else c(F_name \<mapsto> unescape p)
      | [] \<Rightarrow> c)"

text \<open>
  One turn of the loop of \<^verbatim>\<open>parse\<close>. \<^verbatim>\<open>fieldPart.split(';')[0].toUpperCase()\<close> is a
  method call on an array element, a TypeError when the element is \<^verbatim>\<open>undefined\<close>.
\<close>

definition parse_line :: "contact \<Rightarrow> jsstring \<Rightarrow> error + contact" where
  "parse_line c l =
     (if trim l = [] \<or> startsWith l (str ''BEGIN'') \<or> startsWith l (str ''END'') then Inr c
      else (case match_line l of
              None \<Rightarrow> Inr c
            | Some (fieldPart, v) \<Rightarrow>
                (case split_unit 59 fieldPart of
                   [] \<Rightarrow> Inl TypeError
                 | f # _ \<Rightarrow>
                     (let fld = toUpperCase f; unescapedValue = unescape v in
                      if fld = str ''FN'' then Inr (c(F_name \<mapsto> unescapedValue))
                      else if fld = str ''N'' then Inr (name_of_N c v)
                      else if fld = str ''TEL'' then
                        Inr (if truthy (c F_phone) then c else c(F_phone \<mapsto> unescapedValue))
                      else if fld = str ''EMAIL'' then
                        Inr (if truthy (c F_email) then c else c(F_email \<mapsto> unescapedValue))
                      else if fld = str ''ORG'' then Inr (c(F_company \<mapsto> unescapedValue))
                      else if fld = str ''X-EVENT-TAG'' then
                        Inr (c(F_eventTag \<mapsto> unescapedValue))
                      else Inr c))))"

fun parse_lines :: "contact \<Rightarrow> jsstring list \<Rightarrow> error + contact" where
  "parse_lines c [] = Inr c"
| "parse_lines c (l # ls) =
     (case parse_line c l of Inl e \<Rightarrow> Inl e | Inr c' \<Rightarrow> parse_lines c' ls)"

text \<open>The object literal with all five properties.\<close>

definition mk_contact ::
  "jsstring \<Rightarrow> jsstring \<Rightarrow> jsstring \<Rightarrow> jsstring \<Rightarrow> jsstring \<Rightarrow> contact" where
  "mk_contact n p e c t =
     [F_name \<mapsto> n, F_phone \<mapsto> p, F_email \<mapsto> e, F_company \<mapsto> c, F_eventTag \<mapsto> t]"

definition parse :: "jsstring \<Rightarrow> error + contact" where
  "parse vcardString =
     (if vcardString = [] then Inr (mk_contact [] [] [] [] [])
      else parse_lines (mk_contact [] [] [] [] []) (split_runs is_crlf vcardString))"

section \<open>The text normalizer (cleanText)\<close>

text \<open>
  The repository holds two copies of the inference code: the web one (class
  \<^verbatim>\<open>OCRProcessor\<close>) and the mobile one (class \<^verbatim>\<open>ContactParser\<close>). They differ in the
  garbage class of \<^verbatim>\<open>cleanText\<close> and in the last phone replacement of
  \<^verbatim>\<open>extractContactInfo\<close>; the model takes the copy as a parameter.
\<close>

datatype variant = Web | Mobile

text \<open>
  \<^verbatim>\<open>s.replace(/[class]{k,}/g, ' ')\<close>: the scan goes from left to right; where the run of
  the class that starts at the current code unit has \<open>k\<close> code units or more, the whole
  run becomes one space and the scan resumes after it; otherwise the code unit is kept
  and the scan moves on by one.
\<close>

function replace_runs :: "nat \<Rightarrow> (nat \<Rightarrow> bool) \<Rightarrow> jsstring \<Rightarrow> jsstring" where
  "replace_runs k p [] = []"
| "replace_runs k p (c # cs) =
     (if p c \<and> k \<le> Suc (length (takeWhile p cs)) then 32 # replace_runs k p (dropWhile p cs)
      else c # replace_runs k p cs)"
  by pat_completeness auto
termination
  by (relation "measure (\<lambda>(k, p, s). length s)")
    (auto simp: le_imp_less_Suc length_dropWhile_le)

text \<open>Step 1: the class of the dash-like code units U+2010 to U+2015.\<close>

definition is_dash :: "nat \<Rightarrow> bool" where
  "is_dash c = (8208 \<le> c \<and> c \<le> 8213)"

definition normalize_dashes :: "jsstring \<Rightarrow> jsstring" where
  "normalize_dashes s = map (\<lambda>c. if is_dash c then 45 else c) s"

text \<open>
  Step 2: \<^verbatim>\<open>replace(/^[^a-zA-Z0-9@.\+\s\-,]+|[^a-zA-Z0-9@.\+\s\-,]+$/g, '')\<close>. The first
  alternative matches the run outside the class at the start of the string, the second
  one the run that reaches the end of the string; both are deleted.
\<close>

definition is_edge :: "nat \<Rightarrow> bool" where
  \<comment> \<open>\<^verbatim>\<open>[a-zA-Z0-9@.\+\s\-,]\<close>\<close>
  "is_edge c = (is_lower c \<or> is_upper c \<or> is_digit c \<or> c = 64 \<or> c = 46 \<or> c = 43 \<or>
     is_space c \<or> c = 45 \<or> c = 44)"

definition strip_edges :: "jsstring \<Rightarrow> jsstring" where
  "strip_edges s =
     rev (dropWhile (\<lambda>c. \<not> is_edge c) (rev (dropWhile (\<lambda>c. \<not> is_edge c) s)))"

text \<open>
  Step 3: the garbage class \<^verbatim>\<open>[{}>\])(_+=?|\\/~]\<close>, where \<^verbatim>\<open>?\<close> is the bullet U+2022
  in the web copy. The mobile copy holds the three code units U+00E2, U+20AC, U+00A2
  in its place. The plus sign (43) is a deref of the class in both.
\<close>

definition is_garbage :: "variant \<Rightarrow> nat \<Rightarrow> bool" where
  "is_garbage v c =
     (c = 123 \<or> c = 125 \<or> c = 62 \<or> c = 93 \<or> c = 41 \<or> c = 40 \<or> c = 95 \<or> c = 43 \<or>
      c = 61 \<or> c = 124 \<or> c = 92 \<or> c = 47 \<or> c = 126 \<or>
      (case v of Web \<Rightarrow> c = 8226 | Mobile \<Rightarrow> c = 226 \<or> c = 8364 \<or> c = 162))"

text \<open>Step 4: \<^verbatim>\<open>[-_]\<close>.\<close>

definition is_dash_us :: "nat \<Rightarrow> bool" where
  "is_dash_us c = (c = 45 \<or> c = 95)"

text \<open>Step 7: \<^verbatim>\<open>replace(/[^\w\s@.+,\-]/g, ' ')\<close>, one space for each code unit.\<close>

definition is_kept :: "nat \<Rightarrow> bool" where
  \<comment> \<open>\<^verbatim>\<open>[\w\s@.+,\-]\<close>\<close>
  "is_kept c = (is_word c \<or> is_space c \<or> c = 64 \<or> c = 46 \<or> c = 43 \<or> c = 44 \<or> c = 45)"

definition blank_unkept :: "jsstring \<Rightarrow> jsstring" where
  "blank_unkept s = map (\<lambda>c. if is_kept c then c else 32) s"

text \<open>\<^verbatim>\<open>cleanText(text)\<close>: the nine steps in the order of the source.\<close>

definition cleanText :: "variant \<Rightarrow> jsstring \<Rightarrow> jsstring" where
  "cleanText v text =
     (if text = [] then []
      else trim
            (replace_runs 2 is_space
              (blank_unkept
                (replace_runs 1 (\<lambda>c. \<not> is_ascii c)
                  (replace_runs 2 is_space
                    (replace_runs 2 is_dash_us
                      (replace_runs 1 (is_garbage v)
                        (strip_edges
                          (normalize_dashes text)))))))))"

section \<open>Regular expressions with backtracking\<close>

text \<open>
  The patterns of \<^verbatim>\<open>this.patterns\<close> and of the classifier are built from character
  classes with a greedy bounded repetition, concatenation, alternation, the empty
  pattern and the word boundary \<^verbatim>\<open>\b\<close>. \<open>Cls p lo hi\<close> is \<^verbatim>\<open>[p]{lo,hi}\<close> (\<open>hi = None\<close>:
  no upper bound); \<^verbatim>\<open>(r)?\<close> is \<open>Alt r Eps\<close>.
\<close>

datatype rx = Cls "nat \<Rightarrow> bool" nat "nat option" | Seq rx rx | Alt rx rx | Eps | WordB

text \<open>
  \<open>ends r s i\<close> lists the positions where a match of \<open>r\<close> that starts at position \<open>i\<close>
  of \<open>s\<close> can end, in the order in which a backtracking matcher tries them: a greedy
  repetition tries the longest run first, an alternation its left branch first. The
  match the engine reports is the first of the list.
\<close>

definition word_boundary :: "jsstring \<Rightarrow> nat \<Rightarrow> bool" where
  "word_boundary s i =
     ((0 < i \<and> i \<le> length s \<and> is_word (s ! (i - 1))) \<noteq> (i < length s \<and> is_word (s ! i)))"

primrec ends :: "rx \<Rightarrow> jsstring \<Rightarrow> nat \<Rightarrow> nat list" where
  "ends (Cls p lo hi) s i =
     (let n = length (takeWhile p (drop i s));
          m = (case hi of None \<Rightarrow> n | Some h \<Rightarrow> min h n)
      in if m < lo then [] else rev [i + lo ..< Suc (i + m)])"
| "ends (Seq a b) s i = concat (map (ends b s) (ends a s i))"
| "ends (Alt a b) s i = ends a s i @ ends b s i"
| "ends Eps s i = [i]"
| "ends WordB s i = (if word_boundary s i then [i] else [])"

text \<open>
  The search of \<^verbatim>\<open>RegExpBuiltinExec\<close>: the first of the start positions \<open>js\<close> at which
  the pattern matches, with the end of the match.
\<close>

fun scan :: "rx \<Rightarrow> jsstring \<Rightarrow> nat list \<Rightarrow> (nat \<times> nat) option" where
  "scan r s [] = None"
| "scan r s (j # js) = (case ends r s j of [] \<Rightarrow> scan r s js | e # _ \<Rightarrow> Some (j, e))"

definition exec_from :: "rx \<Rightarrow> jsstring \<Rightarrow> nat \<Rightarrow> (nat \<times> nat) option" where
  \<comment> \<open>the start positions are \<open>i\<close>, ..., \<open>length s\<close>; none when \<open>i\<close> is beyond the end\<close>
  "exec_from r s i = scan r s [i ..< Suc (length s)]"

text \<open>\<^verbatim>\<open>s.substring(a, b)\<close>, which swaps its arguments when \<open>a > b\<close>.\<close>

definition substring :: "jsstring \<Rightarrow> nat \<Rightarrow> nat \<Rightarrow> jsstring" where
  "substring s a b = take (max a b - min a b) (drop (min a b) s)"

text \<open>
  \<^verbatim>\<open>r.test(s)\<close> for a pattern with the \<^verbatim>\<open>g\<close> flag: the search starts at the pattern's
  \<^verbatim>\<open>lastIndex\<close> \<open>li\<close>; a match stores its end in \<^verbatim>\<open>lastIndex\<close>, a failure stores 0. The
  result is the answer and the new \<^verbatim>\<open>lastIndex\<close>.
\<close>

definition test_global :: "rx \<Rightarrow> nat \<Rightarrow> jsstring \<Rightarrow> bool \<times> nat" where
  "test_global r li s = (case exec_from r s li of None \<Rightarrow> (False, 0) | Some (j, e) \<Rightarrow> (True, e))"

text \<open>\<^verbatim>\<open>r.test(s)\<close> for a regular expression literal without flags: the search starts at 0.\<close>

definition test :: "rx \<Rightarrow> jsstring \<Rightarrow> bool" where
  "test r s = (exec_from r s 0 \<noteq> None)"

text \<open>
  \<^verbatim>\<open>s.match(r)\<close> for a pattern with the \<^verbatim>\<open>g\<close> flag: \<^verbatim>\<open>lastIndex\<close> is set to 0, every
  match is collected from left to right (after an empty match the search resumes one
  position later), and \<^verbatim>\<open>lastIndex\<close> is 0 again at the end. The result is \<^verbatim>\<open>null\<close>
  (\<open>None\<close>) when there is no match.
\<close>

fun matches_at :: "rx \<Rightarrow> jsstring \<Rightarrow> nat \<Rightarrow> nat list \<Rightarrow> jsstring list" where
  "matches_at r s nxt [] = []"
| "matches_at r s nxt (j # js) =
     (if j < nxt then matches_at r s nxt js
      else (case ends r s j of
              [] \<Rightarrow> matches_at r s nxt js
            | e # _ \<Rightarrow> substring s j e # matches_at r s (if e = j then Suc e else e) js))"

definition match_global :: "rx \<Rightarrow> jsstring \<Rightarrow> jsstring list option" where
  "match_global r s =
     (case matches_at r s 0 [0 ..< Suc (length s)] of [] \<Rightarrow> None | m # ms \<Rightarrow> Some (m # ms))"

text \<open>
  \<^verbatim>\<open>s.search(r)\<close>: the start of the first match from position 0, \<open>None\<close> for -1. The
  pattern's \<^verbatim>\<open>lastIndex\<close> is neither read nor changed.
\<close>

definition search :: "rx \<Rightarrow> jsstring \<Rightarrow> nat option" where
  "search r s = (case exec_from r s 0 of None \<Rightarrow> None | Some (j, e) \<Rightarrow> Some j)"

text \<open>Building blocks: one code unit, a literal, a literal under the \<^verbatim>\<open>i\<close> flag.\<close>

definition lit :: "nat \<Rightarrow> rx" where
  "lit c = Cls (\<lambda>x. x = c) 1 (Some 1)"

definition opt_lit :: "nat \<Rightarrow> rx" where
  \<comment> \<open>\<^verbatim>\<open>c?\<close>\<close>
  "opt_lit c = Cls (\<lambda>x. x = c) 0 (Some 1)"

definition lower_unit :: "nat \<Rightarrow> nat" where
  "lower_unit c = (if is_upper c then c + 32 else c)"

definition lit_i :: "nat \<Rightarrow> rx" where
  \<comment> \<open>under the \<^verbatim>\<open>i\<close> flag an ASCII letter matches both of its cases, and nothing else\<close>
  "lit_i c = Cls (\<lambda>x. x < 128 \<and> lower_unit x = lower_unit c) 1 (Some 1)"

definition literal :: "string \<Rightarrow> rx" where
  "literal cs = foldr (\<lambda>c r. Seq (lit (code_unit c)) r) cs Eps"

definition literal_i :: "string \<Rightarrow> rx" where
  "literal_i cs = foldr (\<lambda>c r. Seq (lit_i (code_unit c)) r) cs Eps"

fun alts :: "rx list \<Rightarrow> rx" where
  "alts [r] = r"
| "alts (r # rs) = Alt r (alts rs)"
| "alts [] = Cls (\<lambda>x. False) 1 (Some 1)"

text \<open>The four patterns of \<^verbatim>\<open>this.patterns\<close>, each with the \<^verbatim>\<open>g\<close> flag.\<close>

definition is_alnum :: "nat \<Rightarrow> bool" where
  "is_alnum c = (is_upper c \<or> is_lower c \<or> is_digit c)"

definition is_sep :: "nat \<Rightarrow> bool" where
  \<comment> \<open>\<^verbatim>\<open>[\s\-\.]\<close>\<close>
  "is_sep c = (is_space c \<or> c = 45 \<or> c = 46)"

definition rx_email :: rx where
  \<comment> \<open>\<^verbatim>\<open>\b[A-Za-z0-9._%+-]+@[A-Za-z0-9.-]+\.[A-Z|a-z]{2,}\b\<close>\<close>
  "rx_email =
     Seq WordB
      (Seq (Cls (\<lambda>c. is_alnum c \<or> c = 46 \<or> c = 95 \<or> c = 37 \<or> c = 43 \<or> c = 45) 1 None)
        (Seq (lit 64)
          (Seq (Cls (\<lambda>c. is_alnum c \<or> c = 46 \<or> c = 45) 1 None)
            (Seq (lit 46)
              (Seq (Cls (\<lambda>c. is_upper c \<or> c = 124 \<or> is_lower c) 2 None) WordB)))))"

definition rx_phone :: rx where
  \<comment> \<open>\<^verbatim>\<open>(\+?\d{1,3}[\s\-\.]?)?\(?\d{3}\)?[\s\-\.]?\d{3}[\s\-\.]?\d{4}\<close>\<close>
  "rx_phone =
     Seq (Alt (Seq (opt_lit 43) (Seq (Cls is_digit 1 (Some 3)) (Cls is_sep 0 (Some 1)))) Eps)
      (Seq (opt_lit 40)
        (Seq (Cls is_digit 3 (Some 3))
          (Seq (opt_lit 41)
            (Seq (Cls is_sep 0 (Some 1))
              (Seq (Cls is_digit 3 (Some 3))
                (Seq (Cls is_sep 0 (Some 1)) (Cls is_digit 4 (Some 4))))))))"

definition rx_phoneAlt :: rx where
  \<comment> \<open>\<^verbatim>\<open>(\+?\d{1,4}[\s\-\.]?)?\(?\d{2,4}\)?[\s\-\.]?\d{2,4}[\s\-\.]?\d{2,4}[\s\-\.]?\d{0,4}\<close>\<close>
  "rx_phoneAlt =
     Seq (Alt (Seq (opt_lit 43) (Seq (Cls is_digit 1 (Some 4)) (Cls is_sep 0 (Some 1)))) Eps)
      (Seq (opt_lit 40)
        (Seq (Cls is_digit 2 (Some 4))
          (Seq (opt_lit 41)
            (Seq (Cls is_sep 0 (Some 1))
              (Seq (Cls is_digit 2 (Some 4))
                (Seq (Cls is_sep 0 (Some 1))
                  (Seq (Cls is_digit 2 (Some 4))
                    (Seq (Cls is_sep 0 (Some 1)) (Cls is_digit 0 (Some 4))))))))))"

definition rx_url :: rx where
  \<comment> \<open>\<^verbatim>\<open>https?:\/\/[^\s]+\<close>\<close>
  "rx_url =
     Seq (literal ''http'')
      (Seq (opt_lit 115) (Seq (literal ''://'') (Cls (\<lambda>c. \<not> is_space c) 1 None)))"

text \<open>The patterns of the classifier and of the single-line split, all without \<^verbatim>\<open>g\<close>.\<close>

definition rx_digits7 :: rx where
  \<comment> \<open>\<^verbatim>\<open>\d{7,}\<close>\<close>
  "rx_digits7 = Cls is_digit 7 None"

definition rx_state_zip :: rx where
  \<comment> \<open>\<^verbatim>\<open>\b[A-Z]{2}\s+\d{5}\b\<close>\<close>
  "rx_state_zip =
     Seq WordB (Seq (Cls is_upper 2 (Some 2))
       (Seq (Cls is_space 1 None) (Seq (Cls is_digit 5 (Some 5)) WordB)))"

definition rx_zip :: rx where
  \<comment> \<open>\<^verbatim>\<open>\b\d{5}\b\<close>\<close>
  "rx_zip = Seq WordB (Seq (Cls is_digit 5 (Some 5)) WordB)"

definition rx_street :: rx where
  \<comment> \<open>\<^verbatim>\<open>\b(street|st|avenue|ave|road|rd|boulevard|blvd|drive|dr|lane|ln|way|circle|ct)\b\<close>
      with the \<^verbatim>\<open>i\<close> flag\<close>
  "rx_street =
     Seq WordB
      (Seq (alts (map literal_i [''street'', ''st'', ''avenue'', ''ave'', ''road'', ''rd'',
              ''boulevard'', ''blvd'', ''drive'', ''dr'', ''lane'', ''ln'', ''way'', ''circle'',
              ''ct''])) WordB)"

definition rx_plus_digit :: rx where
  \<comment> \<open>\<^verbatim>\<open>\+\d\<close>\<close>
  "rx_plus_digit = Seq (lit 43) (Cls is_digit 1 (Some 1))"

definition rx_www :: rx where
  \<comment> \<open>\<^verbatim>\<open>www\.\<close> with the \<^verbatim>\<open>i\<close> flag\<close>
  "rx_www = Seq (literal_i ''www'') (lit 46)"

section \<open>The inference engine (classifyLine, extractContactInfo)\<close>

text \<open>
  The only mutable data of the engine object: the \<^verbatim>\<open>lastIndex\<close> of each of the four
  patterns of \<^verbatim>\<open>this.patterns\<close>. A new engine has them all at 0.
\<close>

record patterns =
  email_lastIndex :: nat
  phone_lastIndex :: nat
  phoneAlt_lastIndex :: nat
  url_lastIndex :: nat

definition new_patterns :: patterns where
  "new_patterns = \<lparr>email_lastIndex = 0, phone_lastIndex = 0, phoneAlt_lastIndex = 0,
     url_lastIndex = 0\<rparr>"

datatype line_type = T_unknown | T_email | T_phone | T_website | T_address | T_company
  | T_title | T_name | T_name_or_company

record classification =
  type :: line_type
  confidence :: nat
  original :: jsstring

text \<open>
  \<^verbatim>\<open>s.includes(t)\<close> and \<^verbatim>\<open>s.toLowerCase()\<close>. The lower case of a code lit outside
  ASCII is not modelled (it is left as it is): every string the engine lowers comes
  out of \<^verbatim>\<open>cleanText\<close>, which leaves ASCII only.
\<close>

fun js_includes :: "jsstring \<Rightarrow> jsstring \<Rightarrow> bool" where
  "js_includes [] t = (t = [])"
| "js_includes (c # cs) t = (startsWith (c # cs) t \<or> js_includes cs t)"

definition toLowerCase :: "jsstring \<Rightarrow> jsstring" where
  "toLowerCase s = map lower_unit s"

text \<open>
  An array element \<^verbatim>\<open>xs[i]\<close> is \<^verbatim>\<open>undefined\<close> (\<open>None\<close>) beyond the end of the array, and
  reading a property or calling a method of \<^verbatim>\<open>undefined\<close> throws a TypeError.
\<close>

definition at_index :: "'a list \<Rightarrow> nat \<Rightarrow> 'a option" where
  "at_index xs i = (if i < length xs then Some (xs ! i) else None)"

definition deref :: "'a option \<Rightarrow> error + 'a" where
  "deref x = (case x of None \<Rightarrow> Inl TypeError | Some y \<Rightarrow> Inr y)"

definition bindE :: "error + 'a \<Rightarrow> ('a \<Rightarrow> error + 'b) \<Rightarrow> error + 'b" where
  "bindE m f = (case m of Inl e \<Rightarrow> Inl e | Inr x \<Rightarrow> f x)"

text \<open>
  \<^verbatim>\<open>words.every(w => w.length > 0 && w[0] === w[0].toUpperCase() && /^[A-Z]/.test(w))\<close>.
\<close>

definition capitalized :: "jsstring \<Rightarrow> error + bool" where
  "capitalized w =
     (if length w > 0
      then bindE (deref (at_index w 0)) (\<lambda>c. Inr (toUpperCase [c] = [c] \<and> is_upper c))
      else Inr False)"

fun every :: "('a \<Rightarrow> error + bool) \<Rightarrow> 'a list \<Rightarrow> error + bool" where
  "every f [] = Inr True"
| "every f (x # xs) = bindE (f x) (\<lambda>b. if b then every f xs else Inr False)"

definition companyPatterns :: "jsstring list" where
  "companyPatterns = map str [''inc'', ''ltd'', ''llc'', ''corp'', ''pvt'', ''limited'',
     ''incorporated'', ''company'', ''co.'', ''group'', ''solutions'', ''systems'', ''services'',
     ''agency'']"

definition titleKeywords :: "jsstring list" where
  "titleKeywords = map str [''agent'', ''manager'', ''director'', ''executive'', ''president'',
     ''ceo'', ''cfo'', ''cto'', ''vp'', ''vice president'', ''specialist'', ''consultant'',
     ''advisor'', ''representative'', ''assistant'', ''coordinator'']"

text \<open>
  \<^verbatim>\<open>classifyLine(line)\<close>. The rules are tried in the order of the source, and the
  operands of each \<^verbatim>\<open>||\<close> from left to right: a \<^verbatim>\<open>test\<close> of a pattern of
  \<^verbatim>\<open>this.patterns\<close> runs, and moves that pattern's \<^verbatim>\<open>lastIndex\<close>, only when the
  operands before it were false.
\<close>

definition classify_words :: "jsstring \<Rightarrow> error + classification" where
  "classify_words line =
     (let words = filter (\<lambda>w. length w > 0) (split_runs is_space line);
          hasTwoWords = (length words = 2);
          noNumbers = (\<not> test (Cls is_digit 1 (Some 1)) line);
          reasonableLength = (length line \<ge> 3 \<and> length line \<le> 40)
      in bindE (every capitalized words) (\<lambda>allWordsCapitalized.
           if hasTwoWords \<and> allWordsCapitalized \<and> noNumbers \<and> reasonableLength
           then Inr \<lparr>type = T_name, confidence = 9, original = line\<rparr>
           else if length words \<ge> 2 \<and> allWordsCapitalized \<and> noNumbers \<and> reasonableLength
           then Inr \<lparr>type = T_name_or_company, confidence = 6, original = line\<rparr>
           else Inr \<lparr>type = T_unknown, confidence = 0, original = line\<rparr>))"

definition classify_keywords :: "jsstring \<Rightarrow> error + classification" where
  "classify_keywords line =
     (let lowerLine = toLowerCase line in
      if test rx_state_zip line \<or> test rx_zip line \<or> test rx_street line
      then Inr \<lparr>type = T_address, confidence = 8, original = line\<rparr>
      else if list_ex (\<lambda>pattern. js_includes lowerLine pattern) companyPatterns
      then Inr \<lparr>type = T_company, confidence = 10, original = line\<rparr>
      else if list_ex (\<lambda>keyword. js_includes lowerLine keyword) titleKeywords
      then (if js_includes lowerLine (str ''real estate'') \<or> js_includes lowerLine (str ''realestate'')
            then Inr \<lparr>type = T_company, confidence = 8, original = line\<rparr>
            else Inr \<lparr>type = T_title, confidence = 7, original = line\<rparr>)
      else classify_words line)"

definition classify_website :: "patterns \<Rightarrow> jsstring \<Rightarrow> error + (classification \<times> patterns)" where
  "classify_website st line =
     (let lowerLine = toLowerCase line;
          (u, li) = test_global rx_url (url_lastIndex st) line;
          st' = st\<lparr>url_lastIndex := li\<rparr>
      in if u \<or> js_includes lowerLine (str ''www.'') \<or> js_includes lowerLine (str ''.com'') \<or>
            js_includes lowerLine (str ''.net'') \<or> js_includes lowerLine (str ''.org'')
         then Inr (\<lparr>type = T_website, confidence = 9, original = line\<rparr>, st')
         else bindE (classify_keywords line) (\<lambda>cl. Inr (cl, st')))"

definition classify_phone :: "patterns \<Rightarrow> jsstring \<Rightarrow> error + (classification \<times> patterns)" where
  "classify_phone st line =
     (let isPhone = \<lparr>type = T_phone, confidence = 10, original = line\<rparr> in
      if js_includes line [43] \<or> test rx_digits7 line then Inr (isPhone, st)
      else (let (p, li) = test_global rx_phone (phone_lastIndex st) line;
                st' = st\<lparr>phone_lastIndex := li\<rparr>
            in if p then Inr (isPhone, st')
               else (let (a, li') = test_global rx_phoneAlt (phoneAlt_lastIndex st') line;
                         st'' = st'\<lparr>phoneAlt_lastIndex := li'\<rparr>
                     in if a then Inr (isPhone, st'') else classify_website st'' line)))"

definition classifyLine :: "patterns \<Rightarrow> jsstring \<Rightarrow> error + (classification \<times> patterns)" where
  "classifyLine st line =
     (let isEmail = \<lparr>type = T_email, confidence = 10, original = line\<rparr> in
      if js_includes line [64] then Inr (isEmail, st)
      else (let (e, li) = test_global rx_email (email_lastIndex st) line;
                st' = st\<lparr>email_lastIndex := li\<rparr>
            in if e then Inr (isEmail, st') else classify_phone st' line))"

text \<open>\<^verbatim>\<open>lines.map(line => this.classifyLine(line))\<close>: the lines in order, on one engine.\<close>

fun classify_all ::
  "patterns \<Rightarrow> jsstring list \<Rightarrow> error + (classification list \<times> patterns)" where
  "classify_all st [] = Inr ([], st)"
| "classify_all st (l # ls) =
     bindE (classifyLine st l) (\<lambda>(cl, st').
       bindE (classify_all st' ls) (\<lambda>(cls, st''). Inr (cl # cls, st'')))"

text \<open>
  \<^verbatim>\<open>extractContactInfo(text)\<close>, block by block. The object literal at its start has the
  four properties \<^verbatim>\<open>name\<close>, \<^verbatim>\<open>phone\<close>, \<^verbatim>\<open>email\<close> and \<^verbatim>\<open>company\<close>. The calls of
  \<^verbatim>\<open>console.log\<close> and \<^verbatim>\<open>console.warn\<close> of the web copy change neither the contact nor
  the engine and are left out.
\<close>

definition contact0 :: contact where
  "contact0 = [F_name \<mapsto> [], F_phone \<mapsto> [], F_email \<mapsto> [], F_company \<mapsto> []]"

text \<open>\<^verbatim>\<open>cleanText(x)\<close> and the other readers of a property that may be \<^verbatim>\<open>undefined\<close>.\<close>

definition cleanText_of :: "variant \<Rightarrow> jsstring option \<Rightarrow> jsstring" where
  "cleanText_of v x = (case x of None \<Rightarrow> [] | Some s \<Rightarrow> cleanText v s)"

text \<open>The email: the first match of the email pattern in the cleaned text.\<close>

definition extract_email :: "contact \<Rightarrow> jsstring \<Rightarrow> error + contact" where
  "extract_email contact cleanedText =
     (case match_global rx_email cleanedText of
        None \<Rightarrow> Inr contact
      | Some emailMatch \<Rightarrow>
          if length emailMatch > 0
          then bindE (deref (at_index emailMatch 0))
                 (\<lambda>m. Inr (contact(F_email \<mapsto> toLowerCase (trim m))))
          else Inr contact)"

text \<open>
  \<^verbatim>\<open>cleanedText.match(this.patterns.phone) || cleanedText.match(this.patterns.phoneAlt)\<close>:
  the second \<^verbatim>\<open>match\<close> runs, and resets the \<^verbatim>\<open>lastIndex\<close> of \<^verbatim>\<open>phoneAlt\<close>, only when
  the first one gave \<^verbatim>\<open>null\<close>.
\<close>

definition match_phone :: "patterns \<Rightarrow> jsstring \<Rightarrow> jsstring list option \<times> patterns" where
  "match_phone st cleanedText =
     (case match_global rx_phone cleanedText of
        Some ms \<Rightarrow> (Some ms, st\<lparr>phone_lastIndex := 0\<rparr>)
      | None \<Rightarrow> (match_global rx_phoneAlt cleanedText,
                 st\<lparr>phone_lastIndex := 0, phoneAlt_lastIndex := 0\<rparr>))"

definition extract_phone :: "contact \<Rightarrow> jsstring list option \<Rightarrow> error + contact" where
  "extract_phone contact phoneMatch =
     (case phoneMatch of
        None \<Rightarrow> Inr contact
      | Some ms \<Rightarrow>
          if length ms > 0
          then bindE (deref (at_index ms 0)) (\<lambda>m. Inr (contact(F_phone \<mapsto> trim m)))
          else Inr contact)"

text \<open>\<^verbatim>\<open>s.split(/\r?\n/)\<close>: a separator is a line feed, with the carriage return before it.\<close>

fun split_newlines_from :: "jsstring \<Rightarrow> jsstring \<Rightarrow> jsstring list" where
  "split_newlines_from cur [] = [cur]"
| "split_newlines_from cur [c] = (if c = 10 then [cur, []] else [cur @ [c]])"
| "split_newlines_from cur (c # d # s) =
     (if c = 13 \<and> d = 10 then cur # split_newlines_from [] s
      else if c = 10 then cur # split_newlines_from [] (d # s)
      else split_newlines_from (cur @ [c]) (d # s))"

definition split_newlines :: "jsstring \<Rightarrow> jsstring list" where
  "split_newlines s = split_newlines_from [] s"

definition text_lines :: "variant \<Rightarrow> jsstring \<Rightarrow> jsstring list" where
  "text_lines v cleanedText =
     filter (\<lambda>line. length line > 0)
       (map (\<lambda>line. cleanText v (trim line)) (split_newlines cleanedText))"

text \<open>
  The split of a single long line at the positions of an email, a phone number and a
  web address. \<^verbatim>\<open>potentialSplits.sort((a, b) => a.pos - b.pos)\<close> is a stable sort by
  position; the loop over the sorted splits carries \<^verbatim>\<open>newLines\<close> and \<^verbatim>\<open>lastPos\<close>.
\<close>

definition split_step ::
  "jsstring \<Rightarrow> nat \<times> line_type \<Rightarrow> jsstring list \<times> nat \<Rightarrow> jsstring list \<times> nat" where
  "split_step singleLine split acc =
     (let (newLines, lastPos) = acc; pos = fst split in
      (if pos > lastPos
       then (let segment = trim (substring singleLine lastPos pos)
             in if length segment > 0 then newLines @ [segment] else newLines)
       else newLines, pos))"

definition resplit_line :: "variant \<Rightarrow> jsstring list \<Rightarrow> jsstring \<Rightarrow> jsstring list" where
  "resplit_line v lines singleLine =
     (let emailPos = search rx_email singleLine;
          phonePos = (if search rx_phone singleLine \<noteq> None then search rx_phone singleLine
                      else search rx_plus_digit singleLine);
          websitePos = (if search rx_url singleLine \<noteq> None then search rx_url singleLine
                        else search rx_www singleLine);
          potentialSplits = sort_key fst
            ((case emailPos of None \<Rightarrow> [] | Some pos \<Rightarrow> [(pos, T_email)]) @
             (case phonePos of None \<Rightarrow> [] | Some pos \<Rightarrow> [(pos, T_phone)]) @
             (case websitePos of None \<Rightarrow> [] | Some pos \<Rightarrow> [(pos, T_website)]))
      in if length potentialSplits > 0
         then (let (newLines, lastPos) = fold (split_step singleLine) potentialSplits ([], 0);
                   remaining = trim (drop lastPos singleLine);
                   newLines' = (if lastPos < length singleLine \<and> length remaining > 0
                                then newLines @ [remaining] else newLines)
               in if length newLines' > 1 then map (cleanText v) newLines' else lines)
         else lines)"

definition resplit :: "variant \<Rightarrow> jsstring list \<Rightarrow> error + jsstring list" where
  "resplit v lines =
     (if length lines = 1
      then bindE (deref (at_index lines 0))
             (\<lambda>l0. Inr (if length l0 > 50 then resplit_line v lines l0 else lines))
      else Inr lines)"

text \<open>The name: the first line of type name, else the first of type name_or_company.\<close>

definition extract_name :: "variant \<Rightarrow> contact \<Rightarrow> classification list \<Rightarrow> error + contact" where
  "extract_name v contact classifiedLines =
     (let nameLines = filter (\<lambda>cl. type cl = T_name \<and> confidence cl \<ge> 9) classifiedLines in
      if length nameLines > 0
      then bindE (deref (at_index nameLines 0))
             (\<lambda>cl. Inr (contact(F_name \<mapsto> cleanText v (original cl))))
      else (let nameOrCompanyLines =
                  filter (\<lambda>cl. type cl = T_name_or_company \<and> confidence cl \<ge> 6) classifiedLines
            in if length nameOrCompanyLines > 0
               then bindE (deref (at_index nameOrCompanyLines 0))
                      (\<lambda>cl. Inr (contact(F_name \<mapsto> cleanText v (original cl))))
               else Inr contact))"

text \<open>
  The company: \<^verbatim>\<open>companyLines.find(cl => cl.type === 'company') || companyLines[0]\<close>,
  else the first line of type name_or_company whose text is not the name.
\<close>

definition extract_company :: "variant \<Rightarrow> contact \<Rightarrow> classification list \<Rightarrow> error + contact" where
  "extract_company v contact classifiedLines =
     (let companyLines =
            filter (\<lambda>cl. (type cl = T_company \<and> confidence cl \<ge> 8) \<or>
                         (type cl = T_title \<and> confidence cl \<ge> 7)) classifiedLines
      in if length companyLines > 0
         then bindE (deref (case find (\<lambda>cl. type cl = T_company) companyLines of
                              Some cl \<Rightarrow> Some cl
                            | None \<Rightarrow> at_index companyLines 0))
                (\<lambda>companyLine. Inr (contact(F_company \<mapsto> cleanText v (original companyLine))))
         else (let remainingNameOrCompany =
                     filter (\<lambda>cl. type cl = T_name_or_company \<and>
                                  Some (original cl) \<noteq> contact F_name \<and>
                                  confidence cl \<ge> 6) classifiedLines
               in if length remainingNameOrCompany > 0
                  then bindE (deref (at_index remainingNameOrCompany 0))
                         (\<lambda>cl. Inr (contact(F_company \<mapsto> cleanText v (original cl))))
                  else Inr contact))"

text \<open>
  \<^verbatim>\<open>normalizeFields(contact, classifiedLines)\<close>. In
  \<^verbatim>\<open>!contact.company || contact.company.trim() === ''\<close> the right operand runs only for a
  non-empty string.
\<close>

definition normalizeFields :: "variant \<Rightarrow> contact \<Rightarrow> classification list \<Rightarrow> contact" where
  "normalizeFields v contact classifiedLines =
     (if (case contact F_company of None \<Rightarrow> True | Some co \<Rightarrow> co = [] \<or> trim co = [])
      then (case find (\<lambda>cl. type cl = T_title \<or> (type cl = T_company \<and> confidence cl \<ge> 7))
                   classifiedLines of
              None \<Rightarrow> contact
            | Some titleLine \<Rightarrow> contact(F_company \<mapsto> cleanText v (original titleLine)))
      else contact)"

text \<open>
  The last block. The phone loses its separators \<^verbatim>\<open>[\s\-\.]\<close>; the web copy then
  applies \<^verbatim>\<open>replace(/^\+?1/, '')\<close>, the mobile copy does not.
\<close>

definition strip_plus_one :: "jsstring \<Rightarrow> jsstring" where
  \<comment> \<open>\<^verbatim>\<open>replace(/^\+?1/, '')\<close>: a leading \<open>+1\<close>, or a leading \<open>1\<close>, is deleted\<close>
  "strip_plus_one p =
     (if take 2 p = [43, 49] then drop 2 p else if take 1 p = [49] then drop 1 p else p)"

definition normalize_phone :: "variant \<Rightarrow> jsstring \<Rightarrow> jsstring" where
  "normalize_phone v p =
     (case v of Web \<Rightarrow> strip_plus_one (delete_class is_sep p)
              | Mobile \<Rightarrow> delete_class is_sep p)"

definition final_cleaning :: "variant \<Rightarrow> contact \<Rightarrow> contact" where
  "final_cleaning v contact =
     (let c1 = contact(F_name \<mapsto> cleanText_of v (contact F_name));
          c2 = c1(F_company \<mapsto> cleanText_of v (c1 F_company));
          c3 = c2(F_phone \<mapsto> (case c2 F_phone of None \<Rightarrow> []
                 | Some p \<Rightarrow> if p = [] then [] else normalize_phone v p))
      in c3(F_email \<mapsto> (case c3 F_email of None \<Rightarrow> []
              | Some e \<Rightarrow> if e = [] then [] else toLowerCase (trim e))))"

definition extractContactInfo ::
  "variant \<Rightarrow> patterns \<Rightarrow> jsstring \<Rightarrow> error + (contact \<times> patterns)" where
  "extractContactInfo v st text =
     (if text = [] then Inr (contact0, st)
      else (let cleanedText = cleanText v text;
                (phoneMatch, st') = match_phone (st\<lparr>email_lastIndex := 0\<rparr>) cleanedText
            in bindE (extract_email contact0 cleanedText) (\<lambda>c1.
               bindE (extract_phone c1 phoneMatch) (\<lambda>c2.
               bindE (resplit v (text_lines v cleanedText)) (\<lambda>lines.
               bindE (classify_all st' lines) (\<lambda>(classifiedLines, st'').
               bindE (extract_name v c2 classifiedLines) (\<lambda>c3.
               bindE (extract_company v c3 classifiedLines) (\<lambda>c4.
               Inr (final_cleaning v (normalizeFields v c4 classifiedLines), st'')))))))))"

text \<open>
  Two calls in a row on one engine, as a caller that keeps the module's engine object
  makes them: the second call starts from the patterns the first one left.
\<close>

definition extract_twice ::
  "variant \<Rightarrow> patterns \<Rightarrow> jsstring \<Rightarrow> jsstring \<Rightarrow> error + (contact \<times> contact)" where
  "extract_twice v st text1 text2 =
     bindE (extractContactInfo v st text1) (\<lambda>(r1, st1).
     bindE (extractContactInfo v st1 text2) (\<lambda>(r2, st2). Inr (r1, r2)))"

section \<open>The decoder in the words of the specification\<close>

text \<open>
  The specification describes \<^verbatim>\<open>decode\<close> by what each kind of line does. A line counts
  when it is not blank, does not begin with \<^verbatim>\<open>BEGIN\<close> or \<^verbatim>\<open>END\<close>, and has a colon with at
  least one code unit before the first colon and at least one after it, none of those
  after it a line terminator (U+2028 and U+2029 are the ones a line can hold). \<open>entry l\<close>
  is, for a line that counts, its field (the text before the first colon up to the
  first semicolon, in upper case) and its raw value (everything after the first colon).
  \<open>values_of F ls\<close> lists the unescaped values of the counted lines of field \<open>F\<close> in
  their order, \<open>name_values ls\<close> the names that the counted \<^verbatim>\<open>FN\<close> and \<^verbatim>\<open>N\<close> lines give.
\<close>

definition entry :: "jsstring \<Rightarrow> (jsstring \<times> jsstring) option" where
  "entry l =
     (if trim l = [] \<or> startsWith l (str ''BEGIN'') \<or> startsWith l (str ''END'') then None
      else (case match_line l of
              None \<Rightarrow> None
            | Some (fieldPart, v) \<Rightarrow>
                (case split_unit 59 fieldPart of
                   [] \<Rightarrow> None
                 | f # _ \<Rightarrow> Some (toUpperCase f, v))))"

definition values_of :: "jsstring \<Rightarrow> jsstring list \<Rightarrow> jsstring list" where
  "values_of F ls = [unescape v. (f, v) \<leftarrow> List.map_filter entry ls, f = F]"

definition N_name :: "jsstring \<Rightarrow> jsstring" where
  \<comment> \<open>with two parts or more: part 1, a space, part 0, trimmed; else part 0\<close>
  "N_name v =
     (case split_unit 59 v of
        l # f # _ \<Rightarrow> trim (unescape f @ [32] @ unescape l)
      | [p] \<Rightarrow> unescape p
      | [] \<Rightarrow> [])"

definition name_values :: "jsstring list \<Rightarrow> jsstring list" where
  "name_values ls =
     [if f = str ''FN'' then unescape v else N_name v.
        (f, v) \<leftarrow> List.map_filter entry ls, f = str ''FN'' \<or> f = str ''N'']"

definition first_or :: "'a \<Rightarrow> 'a list \<Rightarrow> 'a" where
  "first_or d xs = (case xs of [] \<Rightarrow> d | x # _ \<Rightarrow> x)"

definition last_or :: "'a \<Rightarrow> 'a list \<Rightarrow> 'a" where
  "last_or d xs = (case rev xs of [] \<Rightarrow> d | x # _ \<Rightarrow> x)"

text \<open>A vCard with two lines of each kind, to run the decoder on.\<close>

definition vcard_two_of_each :: jsstring where
  "vcard_two_of_each =
     str ''FN:A'' @ [13, 10] @ str ''N:B;C'' @ [13, 10] @ str ''TEL:1'' @ [13, 10] @
     str ''TEL:2'' @ [13, 10] @ str ''EMAIL:x'' @ [10] @ str ''email;TYPE=INTERNET:y'' @
     [13, 10] @ str ''ORG:P'' @ [13, 10] @ str ''ORG:Q'' @ [13, 10] @ str ''N:D''"

text \<open>
  \<open>field_line l\<close> reads a line as the specification words it, where the only lines
  skipped are the blank ones, those that begin with \<^verbatim>\<open>BEGIN\<close> or \<^verbatim>\<open>END\<close>, and those without
  a colon: the field and the value of the line, the value possibly empty. The vCard
  after it has a second \<^verbatim>\<open>FN\<close> and a second \<^verbatim>\<open>ORG\<close> line with an empty value.
\<close>

definition field_line :: "jsstring \<Rightarrow> (jsstring \<times> jsstring) option" where
  "field_line l =
     (if trim l = [] \<or> startsWith l (str ''BEGIN'') \<or> startsWith l (str ''END'') \<or> 58 \<notin> set l
      then None
      else Some (toUpperCase (takeWhile (\<lambda>c. c \<noteq> 59) (takeWhile (\<lambda>c. c \<noteq> 58) l)),
                 tl (dropWhile (\<lambda>c. c \<noteq> 58) l)))"

definition vcard_empty_values :: jsstring where
  "vcard_empty_values =
     str ''FN:A'' @ [13, 10] @ str ''ORG:P'' @ [13, 10] @ str ''FN:'' @ [13, 10] @ str ''ORG:''"

text \<open>
  \<open>no_line s f\<close>: the vCard \<open>s\<close> has no counted line that sets the property \<open>f\<close>, so
  that the decoder leaves it unresolved.
\<close>

definition no_line :: "jsstring \<Rightarrow> field \<Rightarrow> bool" where
  "no_line s f =
     (let ls = split_runs is_crlf s in
      case f of
        F_name \<Rightarrow> name_values ls = []
      | F_phone \<Rightarrow> values_of (str ''TEL'') ls = []
      | F_email \<Rightarrow> values_of (str ''EMAIL'') ls = []
      | F_company \<Rightarrow> values_of (str ''ORG'') ls = []
      | F_eventTag \<Rightarrow> values_of (str ''X-EVENT-TAG'') ls = [])"

section \<open>The inferred record in the words of the specification\<close>

text \<open>
  \<open>mk4\<close> is the object with the four properties the engine fills. \<open>first_phone_match t\<close>
  is the phone match of step 3 of the specification: the first match of the primary
  phone pattern in the text; if there is none, the first match of the looser pattern;
  the empty string if neither matches. \<open>class_of r c\<close>: some character class of the
  pattern \<open>r\<close> holds the code unit \<open>c\<close>. \<open>field_of f r\<close> reads the property \<open>f\<close> of the
  record that a call returned.
\<close>

definition mk4 :: "jsstring \<Rightarrow> jsstring \<Rightarrow> jsstring \<Rightarrow> jsstring \<Rightarrow> contact" where
  "mk4 n p e c = [F_name \<mapsto> n, F_phone \<mapsto> p, F_email \<mapsto> e, F_company \<mapsto> c]"

definition first_phone_match :: "jsstring \<Rightarrow> jsstring" where
  "first_phone_match t =
     (case exec_from rx_phone t 0 of
        Some (j, e) \<Rightarrow> substring t j e
      | None \<Rightarrow> (case exec_from rx_phoneAlt t 0 of
                   Some (j, e) \<Rightarrow> substring t j e
                 | None \<Rightarrow> []))"

primrec class_of :: "rx \<Rightarrow> nat \<Rightarrow> bool" where
  "class_of (Cls p lo hi) c = p c"
| "class_of (Seq a b) c = (class_of a c \<or> class_of b c)"
| "class_of (Alt a b) c = (class_of a c \<or> class_of b c)"
| "class_of Eps c = False"
| "class_of WordB c = False"

definition field_of :: "field \<Rightarrow> error + (contact \<times> patterns) \<Rightarrow> error + jsstring option" where
  "field_of f r = map_sum id (\<lambda>(c, st). c f) r"

text \<open>A card of two lines: a phone number, and a company name followed by digits.\<close>

definition card_two_calls :: jsstring where
  "card_two_calls = str ''555-123-4567'' @ [10] @ str ''Acme Inc 12 34 56''"

text \<open>
  \<open>classified_lines v st text\<close> are the classified lines that a call of
  \<^verbatim>\<open>extractContactInfo\<close> works on. \<open>unresolved v st text f\<close>: the call finds nothing for
  the property \<open>f\<close>. For the email, the email pattern has no match in the normalized
  text; for the phone, neither phone pattern has one; for the name, no line is of type
  name or name_or_company; for the company, no line is of type company, title or
  name_or_company. The event tag is not a property of the inferred record.
\<close>

definition classified_lines :: "variant \<Rightarrow> patterns \<Rightarrow> jsstring \<Rightarrow> classification list" where
  "classified_lines v st text =
     (if text = [] then []
      else (let cleanedText = cleanText v text;
                (phoneMatch, st') = match_phone (st\<lparr>email_lastIndex := 0\<rparr>) cleanedText
            in case bindE (resplit v (text_lines v cleanedText)) (classify_all st') of
                 Inl e \<Rightarrow> []
               | Inr (classifiedLines, st'') \<Rightarrow> classifiedLines))"

definition unresolved :: "variant \<Rightarrow> patterns \<Rightarrow> jsstring \<Rightarrow> field \<Rightarrow> bool" where
  "unresolved v st text f =
     (case f of
        F_name \<Rightarrow>
          list_all (\<lambda>cl. type cl \<noteq> T_name \<and> type cl \<noteq> T_name_or_company)
            (classified_lines v st text)
      | F_phone \<Rightarrow> first_phone_match (cleanText v text) = []
      | F_email \<Rightarrow> match_global rx_email (cleanText v text) = None
      | F_company \<Rightarrow>
          list_all (\<lambda>cl. type cl \<noteq> T_company \<and> type cl \<noteq> T_title \<and>
                         type cl \<noteq> T_name_or_company)
            (classified_lines v st text)
      | F_eventTag \<Rightarrow> False)"

section \<open>The engine around a classifier that throws\<close>





section \<open>Predicates on cleaned text\<close>

text \<open>
  \<open>adjacent p s\<close>: two code units of the class \<open>p\<close> stand next to each other in \<open>s\<close>.
  \<open>is_clean v c\<close>: the code unit survives every step of \<^verbatim>\<open>cleanText\<close>.
\<close>

fun adjacent :: "(nat \<Rightarrow> bool) \<Rightarrow> jsstring \<Rightarrow> bool" where
  "adjacent p (x # y # s) = ((p x \<and> p y) \<or> adjacent p (y # s))"
| "adjacent p s = False"

definition is_clean :: "variant \<Rightarrow> nat \<Rightarrow> bool" where
  "is_clean v c = (is_ascii c \<and> is_kept c \<and> \<not> is_garbage v c)"

section \<open>The round trip in the words of the specification\<close>

text \<open>
  \<open>plain s\<close>: a simple ASCII value without a character the vCard format reserves (no
  backslash, semicolon, comma, carriage return or line feed). \<open>bare_phone p\<close>: a phone
  without white space, hyphens and parentheses. \<open>single_spaced n\<close>: no white space at
  either end, and the words are separated by one space each, that is, the string is its
  white-space separated words joined by single spaces. Two records to run the round
  trip on: one whose name has two spaces between its words, one whose name has one.
\<close>

definition plain :: "jsstring \<Rightarrow> bool" where
  "plain s =
     list_all (\<lambda>c. is_ascii c \<and> c \<noteq> 92 \<and> c \<noteq> 59 \<and> c \<noteq> 44 \<and> c \<noteq> 13 \<and> c \<noteq> 10) s"

definition bare_phone :: "jsstring \<Rightarrow> bool" where
  "bare_phone p = list_all (\<lambda>c. \<not> is_space c \<and> c \<noteq> 45 \<and> c \<noteq> 40 \<and> c \<noteq> 41) p"

definition single_spaced :: "jsstring \<Rightarrow> bool" where
  "single_spaced n = (trim n = n \<and> join [32] (split_runs is_space n) = n)"

definition card_double_space :: contact where
  "card_double_space =
     mk_contact (str ''Jane  Doe'') (str ''+14155552671'') (str ''jane@acme.com'')
       (str ''Acme Inc.'') (str ''expo'')"

definition card_single_space :: contact where
  "card_single_space =
     mk_contact (str ''Jane Q Doe'') (str ''+14155552671'') (str ''jane@acme.com'')
       (str ''Acme: R&D Inc.'') (str ''expo 2024'')"

section \<open>Evaluation\<close>

text \<open>The defining equations that evaluate the model on a concrete input.\<close>

lemmas char_defs = is_space_def is_digit_def is_upper_def is_lower_def is_word_def
  is_line_term_def is_crlf_def is_ascii_def is_dash_def is_edge_def is_garbage_def
  is_dash_us_def is_kept_def is_alnum_def is_sep_def lower_unit_def

lemmas rx_defs = rx_email_def rx_phone_def rx_phoneAlt_def rx_url_def rx_digits7_def
  rx_state_zip_def rx_zip_def rx_street_def rx_plus_digit_def rx_www_def lit_def opt_lit_def
  lit_i_def literal_def literal_i_def

lemmas engine_defs = exec_from_def test_global_def test_def match_global_def search_def
  substring_def word_boundary_def Let_def upt_rec[of _ "numeral _"] upt_rec[of _ "Suc _"]

lemmas string_defs = str_def trim_def startsWith_def replace_unit_def delete_class_def
  split_runs_def split_unit_def upper_unit_def toUpperCase_def toLowerCase_def

lemmas clean_defs = cleanText_def normalize_dashes_def strip_edges_def blank_unkept_def

lemmas codec_defs = truthy_def escape_def unescape_def name_lines_def generate_lines_def
  generate_def match_line_def name_of_N_def parse_line_def parse_def

lemmas decoder_spec_defs = entry_def values_of_def N_name_def name_values_def first_or_def
  last_or_def match_line_def unescape_def List.map_filter_simps

lemmas infer_defs = at_index_def deref_def bindE_def capitalized_def companyPatterns_def
  titleKeywords_def classify_words_def classify_keywords_def classify_website_def
  classify_phone_def classifyLine_def contact0_def cleanText_of_def extract_email_def
  match_phone_def extract_phone_def split_newlines_def text_lines_def split_step_def
  resplit_line_def resplit_def extract_name_def extract_company_def normalizeFields_def
  strip_plus_one_def normalize_phone_def final_cleaning_def extractContactInfo_def
  extract_twice_def new_patterns_def

lemmas all_defs = char_defs rx_defs engine_defs string_defs clean_defs infer_defs

section \<open>Properties of the codec\<close>

lemma replace_pair_no_first: "a \<notin> set s \<Longrightarrow> replace_pair a b r s = s"
  by (induction a b r s rule: replace_pair.induct) auto

text \<open>
  Claim C8. \<^verbatim>\<open>unescape\<close> is meant to undo \<^verbatim>\<open>escape\<close>. It does not: for the string of
  the two code units backslash (92) and \<open>n\<close> (110), \<^verbatim>\<open>escape\<close> gives backslash,
  backslash, \<open>n\<close>; the first replacement of \<^verbatim>\<open>unescape\<close> then reads the second backslash
  and the \<open>n\<close> as an escaped newline, and the result is backslash, newline (10): the
  literal backslash followed by \<open>n\<close> is misread as a newline.
\<close>

theorem unescape_escape_backslash_n:
  "escape [92, 110] = [92, 92, 110] \<and> unescape (escape [92, 110]) = [92, 10] \<and>
   unescape (escape [92, 110]) \<noteq> [92, 110] \<and> 13 \<notin> set [92, 110 :: nat]"
  by (simp add: escape_def unescape_def replace_unit_def)

subsection \<open>Which line wins in the decoder\<close>

lemma last_or_Cons: "last_or d (x # xs) = last_or x xs"
  by (cases xs rule: rev_cases) (auto simp: last_or_def)

lemma replace_pair_nonempty: "s \<noteq> [] \<Longrightarrow> r \<noteq> [] \<Longrightarrow> replace_pair a b r s \<noteq> []"
  by (induction a b r s rule: replace_pair.induct) auto

lemma unescape_nonempty: "v \<noteq> [] \<Longrightarrow> unescape v \<noteq> []"
  by (simp add: unescape_def replace_pair_nonempty)

lemma split_unit_from_nonempty: "split_unit_from d cur s \<noteq> []"
  by (induction s arbitrary: cur) auto

lemma split_unit_from_single: "split_unit_from d cur s = [p] \<Longrightarrow> p = cur @ s"
proof (induction s arbitrary: cur)
  case Nil
  then show ?case by simp
next
  case (Cons a s)
  show ?case
  proof (cases "a = d")
    case True
    with Cons.prems show ?thesis by (simp add: split_unit_from_nonempty)
  next
    case False
    with Cons.prems have "split_unit_from d (cur @ [a]) s = [p]" by simp
    from Cons.IH[OF this] show ?thesis by simp
  qed
qed

lemma match_line_value: "match_line l = Some (fp, v) \<Longrightarrow> v \<noteq> []"
  by (auto simp: match_line_def Let_def split: if_splits list.splits)

lemma name_of_N_eq: "v \<noteq> [] \<Longrightarrow> name_of_N c v = c(F_name \<mapsto> N_name v)"
  by (auto simp: name_of_N_def N_name_def split_unit_def split_unit_from_nonempty
      split: list.splits dest: split_unit_from_single)

lemma mk_contact_upd:
  "(mk_contact n p e c t)(F_name \<mapsto> x) = mk_contact x p e c t"
  "(mk_contact n p e c t)(F_phone \<mapsto> x) = mk_contact n x e c t"
  "(mk_contact n p e c t)(F_email \<mapsto> x) = mk_contact n p x c t"
  "(mk_contact n p e c t)(F_company \<mapsto> x) = mk_contact n p e x t"
  "(mk_contact n p e c t)(F_eventTag \<mapsto> x) = mk_contact n p e c x"
  by (auto simp: mk_contact_def)

lemma mk_contact_apply:
  "mk_contact n p e c t F_name = Some n"
  "mk_contact n p e c t F_phone = Some p"
  "mk_contact n p e c t F_email = Some e"
  "mk_contact n p e c t F_company = Some c"
  "mk_contact n p e c t F_eventTag = Some t"
  by (auto simp: mk_contact_def)

lemma field_names_distinct:
  "str ''FN'' \<noteq> str ''N''" "str ''FN'' \<noteq> str ''TEL''" "str ''FN'' \<noteq> str ''EMAIL''"
  "str ''FN'' \<noteq> str ''ORG''" "str ''FN'' \<noteq> str ''X-EVENT-TAG''"
  "str ''N'' \<noteq> str ''TEL''" "str ''N'' \<noteq> str ''EMAIL''" "str ''N'' \<noteq> str ''ORG''"
  "str ''N'' \<noteq> str ''X-EVENT-TAG''" "str ''TEL'' \<noteq> str ''EMAIL''"
  "str ''TEL'' \<noteq> str ''ORG''" "str ''TEL'' \<noteq> str ''X-EVENT-TAG''"
  "str ''EMAIL'' \<noteq> str ''ORG''" "str ''EMAIL'' \<noteq> str ''X-EVENT-TAG''"
  "str ''ORG'' \<noteq> str ''X-EVENT-TAG''"
  by (simp_all add: str_def)

lemma parse_line_skip: "entry l = None \<Longrightarrow> parse_line c l = Inr c"
  by (auto simp: entry_def parse_line_def split_unit_def split_unit_from_nonempty
      split: if_splits option.splits list.splits prod.splits)

lemma parse_line_entry:
  "entry l = Some (f, v) \<Longrightarrow>
   parse_line (mk_contact n p e c t) l =
     Inr (mk_contact
           (if f = str ''FN'' then unescape v else if f = str ''N'' then N_name v else n)
           (if f = str ''TEL'' \<and> p = [] then unescape v else p)
           (if f = str ''EMAIL'' \<and> e = [] then unescape v else e)
           (if f = str ''ORG'' then unescape v else c)
           (if f = str ''X-EVENT-TAG'' then unescape v else t))"
  by (auto simp: entry_def parse_line_def Let_def mk_contact_upd mk_contact_apply truthy_def
      field_names_distinct field_names_distinct[symmetric] name_of_N_eq
      dest: match_line_value split: if_splits option.splits list.splits prod.splits)

lemma parse_lines_general:
  "parse_lines (mk_contact n p e c t) ls =
     Inr (mk_contact
           (last_or n (name_values ls))
           (if p \<noteq> [] then p else first_or [] (values_of (str ''TEL'') ls))
           (if e \<noteq> [] then e else first_or [] (values_of (str ''EMAIL'') ls))
           (last_or c (values_of (str ''ORG'') ls))
           (last_or t (values_of (str ''X-EVENT-TAG'') ls)))"
proof (induction ls arbitrary: n p e c t)
  case Nil
  show ?case
    by (simp add: name_values_def values_of_def List.map_filter_simps last_or_def first_or_def)
next
  case (Cons l ls)
  show ?case
  proof (cases "entry l")
    case None
    then show ?thesis
      by (simp add: parse_line_skip Cons.IH name_values_def values_of_def List.map_filter_simps)
  next
    case (Some fv)
    obtain f v where fv: "fv = (f, v)" by (cases fv)
    have ent: "entry l = Some (f, v)" using Some fv by simp
    have "v \<noteq> []"
      using ent by (auto simp: entry_def split: if_splits option.splits list.splits prod.splits
          dest: match_line_value)
    then have vne: "unescape v \<noteq> []" by (rule unescape_nonempty)
    show ?thesis
      using vne
      by (simp add: parse_line_entry[OF ent] Cons.IH name_values_def values_of_def
          List.map_filter_simps ent last_or_Cons first_or_def field_names_distinct
          field_names_distinct[symmetric])
  qed
qed

text \<open>
  Claim C7, as stated, fails: not every \<^verbatim>\<open>FN\<close> or \<^verbatim>\<open>ORG\<close> line overwrites. In the vCard
  \<^verbatim>\<open>FN:A\<close>, \<^verbatim>\<open>ORG:P\<close>, \<^verbatim>\<open>FN:\<close>, \<^verbatim>\<open>ORG:\<close> the last two lines are field lines with an empty
  value, and \<^verbatim>\<open>parse\<close> skips them: the name stays \<^verbatim>\<open>A\<close> and the company \<^verbatim>\<open>P\<close>.
\<close>

theorem empty_value_counterexample:
  "map field_line (split_runs is_crlf vcard_empty_values) =
     [Some (str ''FN'', str ''A''), Some (str ''ORG'', str ''P''), Some (str ''FN'', []),
      Some (str ''ORG'', [])] \<and>
   map_sum id (\<lambda>c. map c [F_name, F_phone, F_email, F_company, F_eventTag])
     (parse vcard_empty_values) =
     Inr [Some (str ''A''), Some [], Some [], Some (str ''P''), Some []]"
  by (simp add: vcard_empty_values_def field_line_def mk_contact_def codec_defs string_defs
      char_defs Let_def)

text \<open>
  Claim C7, amended. Only the counted lines take part: a line with an empty value, such
  as \<^verbatim>\<open>FN:\<close>, is skipped like a line without a colon. For every input, the record that
  \<^verbatim>\<open>parse\<close> returns holds: as phone the value of the first counted \<^verbatim>\<open>TEL\<close> line and as
  email the value of the first counted \<^verbatim>\<open>EMAIL\<close> line (later ones are ignored); as name
  what the last counted \<^verbatim>\<open>FN\<close> or \<^verbatim>\<open>N\<close> line gives, so that a later \<^verbatim>\<open>N\<close> line replaces the
  name of an earlier \<^verbatim>\<open>FN\<close> line; as company the value of the last counted \<^verbatim>\<open>ORG\<close> line
  and as event tag the value of the last counted \<^verbatim>\<open>X-EVENT-TAG\<close> line. A field without
  a counted line is the empty string.
\<close>

theorem parse_first_TEL_EMAIL_last_others:
  "parse s =
     Inr (mk_contact
           (last_or [] (name_values (split_runs is_crlf s)))
           (first_or [] (values_of (str ''TEL'') (split_runs is_crlf s)))
           (first_or [] (values_of (str ''EMAIL'') (split_runs is_crlf s)))
           (last_or [] (values_of (str ''ORG'') (split_runs is_crlf s)))
           (last_or [] (values_of (str ''X-EVENT-TAG'') (split_runs is_crlf s))))"
proof (cases "s = []")
  case True
  then show ?thesis
    by (simp add: parse_def split_runs_def name_values_def values_of_def entry_def trim_def
        List.map_filter_simps last_or_def first_or_def)
next
  case False
  then show ?thesis by (simp add: parse_def parse_lines_general)
qed

theorem parse_first_TEL_EMAIL_last_others_witness:
  "parse vcard_two_of_each = Inr (mk_contact (str ''D'') (str ''1'') (str ''x'') (str ''Q'') [])"
  using parse_first_TEL_EMAIL_last_others [of vcard_two_of_each]
  by (simp add: vcard_two_of_each_def decoder_spec_defs string_defs char_defs)

subsection \<open>The round trip\<close>

lemma replace_unit_id: "c \<notin> set s \<Longrightarrow> replace_unit c r s = s"
  by (induction s) (auto simp: replace_unit_def)

lemma plain_set:
  "plain s \<Longrightarrow> c \<in> set s \<Longrightarrow> is_ascii c \<and> c \<noteq> 92 \<and> c \<noteq> 59 \<and> c \<noteq> 44 \<and> c \<noteq> 13 \<and> c \<noteq> 10"
  by (auto simp: plain_def list_all_iff)

lemma escape_plain: "plain s \<Longrightarrow> escape s = s"
proof -
  assume p: "plain s"
  then have "92 \<notin> set s" "59 \<notin> set s" "44 \<notin> set s" "10 \<notin> set s" "13 \<notin> set s"
    by (auto dest: plain_set)
  then show ?thesis by (simp add: escape_def replace_unit_id)
qed

lemma unescape_plain: "plain s \<Longrightarrow> unescape s = s"
proof -
  assume p: "plain s"
  then have "92 \<notin> set s" by (auto dest: plain_set)
  then show ?thesis by (simp add: unescape_def replace_pair_no_first)
qed

lemma plain_no_line_term: "plain s \<Longrightarrow> c \<in> set s \<Longrightarrow> \<not> is_line_term c"
proof -
  assume "plain s" "c \<in> set s"
  then have "c < 128" "c \<noteq> 13" "c \<noteq> 10" by (auto dest: plain_set simp: is_ascii_def)
  then show ?thesis unfolding is_line_term_def by linarith
qed

lemma split_runs_from_append:
  "\<forall>c\<in>set l. \<not> p c \<Longrightarrow>
   split_runs_from p cur b (l @ s) = split_runs_from p (cur @ l) (b \<and> l = []) s"
  by (induction l arbitrary: cur b) auto

lemma split_runs_from_join:
  "L \<noteq> [] \<Longrightarrow> \<forall>l\<in>set L. l \<noteq> [] \<and> (\<forall>c\<in>set l. \<not> is_crlf c) \<Longrightarrow>
   split_runs_from is_crlf [] b (join [13, 10] L) = L"
proof (induction "[13::nat, 10]" L arbitrary: b rule: join.induct)
  case 1
  then show ?case by simp
next
  case (2 x)
  then have "split_runs_from is_crlf [] b (x @ []) = split_runs_from is_crlf ([] @ x) (b \<and> x = []) []"
    by (intro split_runs_from_append) simp
  then show ?case by simp
next
  case (3 x y ys)
  from "3.prems" have x: "x \<noteq> []" "\<forall>c\<in>set x. \<not> is_crlf c" by auto
  have ih: "split_runs_from is_crlf [] True (join [13, 10] (y # ys)) = y # ys"
    using 3 by simp
  have "split_runs_from is_crlf [] b (x @ 13 # 10 # join [13, 10] (y # ys)) =
        split_runs_from is_crlf ([] @ x) (b \<and> x = []) (13 # 10 # join [13, 10] (y # ys))"
    using x(2) by (rule split_runs_from_append)
  also have "\<dots> = x # split_runs_from is_crlf [] True (join [13, 10] (y # ys))"
    using x(1) by (simp add: is_crlf_def)
  finally show ?case using ih by simp
qed

lemma set_split_runs_from:
  "w \<in> set (split_runs_from p cur b s) \<Longrightarrow> set w \<subseteq> set cur \<union> set s"
proof (induction s arbitrary: cur b)
  case Nil
  then show ?case by simp
next
  case (Cons a s)
  show ?case
  proof (cases "p a")
    case True
    show ?thesis
    proof (cases b)
      case True
      with \<open>p a\<close> Cons.prems have "w \<in> set (split_runs_from p cur True s)" by simp
      from Cons.IH[OF this] show ?thesis by auto
    next
      case False
      with \<open>p a\<close> Cons.prems have "w = cur \<or> w \<in> set (split_runs_from p [] True s)" by simp
      then show ?thesis
      proof
        assume "w = cur" then show ?thesis by auto
      next
        assume "w \<in> set (split_runs_from p [] True s)"
        from Cons.IH[OF this] show ?thesis by auto
      qed
    qed
  next
    case False
    with Cons.prems have "w \<in> set (split_runs_from p (cur @ [a]) False s)" by simp
    from Cons.IH[OF this] show ?thesis by auto
  qed
qed

lemma set_join: "set (join sep ws) \<subseteq> set sep \<union> (\<Union>w\<in>set ws. set w)"
  by (induction sep ws rule: join.induct) auto

lemma join_butlast_last:
  "length ws > 1 \<Longrightarrow> join sep (butlast ws) @ sep @ last ws = join sep ws"
  by (induction sep ws rule: join.induct) (auto split: if_splits)

lemma split_unit_from_append:
  "d \<notin> set a \<Longrightarrow> split_unit_from d cur (a @ s) = split_unit_from d (cur @ a) s"
  by (induction a arbitrary: cur) auto

lemma split_unit_two:
  "59 \<notin> set a \<Longrightarrow> 59 \<notin> set b \<Longrightarrow>
   split_unit 59 (a @ 59 # b @ [59, 59, 59]) = [a, b, [], [], []]"
  by (simp add: split_unit_def split_unit_from_append)

lemma split_unit_one:
  "59 \<notin> set a \<Longrightarrow> split_unit 59 (a @ [59, 59, 59]) = [a, [], [], []]"
  by (simp add: split_unit_def split_unit_from_append)

lemma trim_space_Cons: "is_space x \<Longrightarrow> trim (x # s) = trim s"
  by (simp add: trim_def)

lemma trim_nonempty: "\<not> is_space x \<Longrightarrow> trim (x # s) \<noteq> []"
  by (auto simp: trim_def)


lemma plain_subset:
  assumes "plain s" "set w \<subseteq> insert 32 (set s)"
  shows "plain w"
  unfolding plain_def list_all_iff
proof
  fix c
  assume "c \<in> set w"
  then consider "c = 32" | "c \<in> set s" using assms(2) by auto
  then show "is_ascii c \<and> c \<noteq> 92 \<and> c \<noteq> 59 \<and> c \<noteq> 44 \<and> c \<noteq> 13 \<and> c \<noteq> 10"
  proof cases
    case 1
    then show ?thesis by (simp add: is_ascii_def)
  next
    case 2
    then show ?thesis using plain_set[OF assms(1)] by blast
  qed
qed

lemma entry_line:
  assumes "v \<noteq> []" "\<forall>c\<in>set v. \<not> is_line_term c"
  shows "entry (str ''FN:'' @ v) = Some (str ''FN'', v)"
    and "entry (str ''N:'' @ v) = Some (str ''N'', v)"
    and "entry (str ''TEL;TYPE=CELL:'' @ v) = Some (str ''TEL'', v)"
    and "entry (str ''EMAIL;TYPE=INTERNET:'' @ v) = Some (str ''EMAIL'', v)"
    and "entry (str ''ORG:'' @ v) = Some (str ''ORG'', v)"
    and "entry (str ''X-EVENT-TAG:'' @ v) = Some (str ''X-EVENT-TAG'', v)"
  using assms
  by (simp_all add: entry_def match_line_def str_def startsWith_def trim_nonempty is_space_def
      split_unit_def toUpperCase_def upper_unit_def is_lower_def list_all_iff Let_def)

lemma entry_header:
  "entry (str ''BEGIN:VCARD'') = None"
  "entry (str ''END:VCARD'') = None"
  "entry (str ''VERSION:3.0'') = Some (str ''VERSION'', str ''3.0'')"
  by (simp_all add: entry_def match_line_def str_def startsWith_def trim_nonempty is_space_def
      split_unit_def toUpperCase_def upper_unit_def is_lower_def is_line_term_def Let_def)


lemma name_lines_plain:
  assumes pl: "plain n" and ss: "single_spaced n"
  shows "\<exists>nv. name_lines n = [str ''FN:'' @ n, str ''N:'' @ nv] \<and> nv \<noteq> [] \<and>
           (\<forall>c\<in>set nv. is_ascii c \<and> c \<noteq> 13 \<and> c \<noteq> 10) \<and> N_name nv = n"
proof -
  define ws where "ws = split_runs is_space n"
  have tr: "trim n = n" and jn: "join [32] ws = n"
    using ss by (simp_all add: single_spaced_def ws_def)
  have ws_ne: "ws \<noteq> []"
    using jn by (cases n) (auto simp: ws_def split_runs_def)
  have ws_sub: "set w \<subseteq> set n" if "w \<in> set ws" for w
    using set_split_runs_from[of w is_space "[]" False n] that by (simp add: ws_def split_runs_def)
  have asc: "\<forall>c\<in>set n. is_ascii c \<and> c \<noteq> 59 \<and> c \<noteq> 13 \<and> c \<noteq> 10"
    using plain_set[OF pl] by blast
  show ?thesis
  proof (cases "length ws > 1")
    case True
    define a where "a = last ws"
    define b where "b = join [32] (butlast ws)"
    have a_sub: "set a \<subseteq> set n"
      using ws_sub[of a] ws_ne by (simp add: a_def)
    have "set b \<subseteq> set [32] \<union> (\<Union>w\<in>set (butlast ws). set w)"
      unfolding b_def by (rule set_join)
    also have "\<dots> \<subseteq> insert 32 (set n)"
      using ws_sub by (auto dest: in_set_butlastD)
    finally have b_sub: "set b \<subseteq> insert 32 (set n)" .
    have pa: "plain a" using plain_subset[OF pl, of a] a_sub by auto
    have pb: "plain b" using plain_subset[OF pl b_sub] .
    have a59: "59 \<notin> set a" using plain_set[OF pa] by blast
    have b59: "59 \<notin> set b" using plain_set[OF pb] by blast
    have nl: "name_lines n = [str ''FN:'' @ n, str ''N:'' @ (a @ 59 # b @ [59, 59, 59])]"
      using True
      by (simp add: name_lines_def Let_def tr ws_def[symmetric] a_def[symmetric] b_def[symmetric]
          escape_plain pl pa pb str_def)
    have "b @ [32] @ a = join [32] ws"
      using join_butlast_last[OF True, of "[32]"] by (simp add: a_def b_def)
    then have nn: "N_name (a @ 59 # b @ [59, 59, 59]) = n"
      by (simp add: N_name_def split_unit_two[OF a59 b59] unescape_plain pa pb jn tr)
    have ok: "\<forall>c\<in>set (a @ 59 # b @ [59, 59, 59]). is_ascii c \<and> c \<noteq> 13 \<and> c \<noteq> 10"
      using plain_set[OF pa] plain_set[OF pb] by (auto simp: is_ascii_def)
    show ?thesis
      using nl ok nn by blast
  next
    case False
    have n59: "59 \<notin> set n" using asc by blast
    have nl: "name_lines n = [str ''FN:'' @ n, str ''N:'' @ (n @ [59, 59, 59])]"
      using False
      by (simp add: name_lines_def Let_def tr ws_def[symmetric] escape_plain pl str_def)
    have "trim (32 # n) = n"
      using tr by (simp add: trim_space_Cons is_space_def)
    moreover have "unescape [] = []" by (simp add: unescape_def)
    ultimately have nn: "N_name (n @ [59, 59, 59]) = n"
      by (simp add: N_name_def split_unit_one[OF n59] unescape_plain pl)
    have ok: "\<forall>c\<in>set (n @ [59, 59, 59]). is_ascii c \<and> c \<noteq> 13 \<and> c \<noteq> 10"
      using asc by (auto simp: is_ascii_def)
    show ?thesis
      using nl ok nn by blast
  qed
qed


lemma join_Cons_nonempty: "x \<noteq> [] \<Longrightarrow> join sep (x # xs) \<noteq> []"
  by (cases xs) auto

lemma parse_lines_append:
  "parse_lines c (xs @ ys) =
     (case parse_lines c xs of Inl e \<Rightarrow> Inl e | Inr c' \<Rightarrow> parse_lines c' ys)"
  by (induction xs arbitrary: c) (auto split: sum.splits)

lemma parse_line_plain:
  assumes "plain v" "v \<noteq> []"
  shows "parse_line (mk_contact n p e c t) (str ''FN:'' @ v) = Inr (mk_contact v p e c t)"
    and "parse_line (mk_contact n [] e c t) (str ''TEL;TYPE=CELL:'' @ v) = Inr (mk_contact n v e c t)"
    and "parse_line (mk_contact n p [] c t) (str ''EMAIL;TYPE=INTERNET:'' @ v) = Inr (mk_contact n p v c t)"
    and "parse_line (mk_contact n p e c t) (str ''ORG:'' @ v) = Inr (mk_contact n p e v t)"
    and "parse_line (mk_contact n p e c t) (str ''X-EVENT-TAG:'' @ v) = Inr (mk_contact n p e c v)"
proof -
  have lt: "\<forall>c\<in>set v. \<not> is_line_term c" using plain_no_line_term[OF assms(1)] by blast
  note ent = entry_line[OF assms(2) lt]
  show "parse_line (mk_contact n p e c t) (str ''FN:'' @ v) = Inr (mk_contact v p e c t)"
    by (simp add: parse_line_entry[OF ent(1)] unescape_plain[OF assms(1)] field_names_distinct)
  show "parse_line (mk_contact n [] e c t) (str ''TEL;TYPE=CELL:'' @ v) = Inr (mk_contact n v e c t)"
    by (simp add: parse_line_entry[OF ent(3)] unescape_plain[OF assms(1)] field_names_distinct
        field_names_distinct[symmetric])
  show "parse_line (mk_contact n p [] c t) (str ''EMAIL;TYPE=INTERNET:'' @ v) = Inr (mk_contact n p v c t)"
    by (simp add: parse_line_entry[OF ent(4)] unescape_plain[OF assms(1)] field_names_distinct
        field_names_distinct[symmetric])
  show "parse_line (mk_contact n p e c t) (str ''ORG:'' @ v) = Inr (mk_contact n p e v t)"
    by (simp add: parse_line_entry[OF ent(5)] unescape_plain[OF assms(1)] field_names_distinct
        field_names_distinct[symmetric])
  show "parse_line (mk_contact n p e c t) (str ''X-EVENT-TAG:'' @ v) = Inr (mk_contact n p e c v)"
    by (simp add: parse_line_entry[OF ent(6)] unescape_plain[OF assms(1)] field_names_distinct
        field_names_distinct[symmetric])
qed

lemma parse_line_N:
  assumes "nv \<noteq> []" "\<forall>c\<in>set nv. is_ascii c \<and> c \<noteq> 13 \<and> c \<noteq> 10"
  shows "parse_line (mk_contact n p e c t) (str ''N:'' @ nv) = Inr (mk_contact (N_name nv) p e c t)"
proof -
  have lt: "\<forall>c\<in>set nv. \<not> is_line_term c"
  proof
    fix x assume "x \<in> set nv"
    then have "x < 128" "x \<noteq> 13" "x \<noteq> 10" using assms(2) by (auto simp: is_ascii_def)
    then show "\<not> is_line_term x" unfolding is_line_term_def by linarith
  qed
  show ?thesis
    by (simp add: parse_line_entry[OF entry_line(2)[OF assms(1) lt]] field_names_distinct
        field_names_distinct[symmetric])
qed

lemma parse_line_header:
  "parse_line c (str ''BEGIN:VCARD'') = Inr c"
  "parse_line c (str ''END:VCARD'') = Inr c"
  "parse_line (mk_contact n p e c' t) (str ''VERSION:3.0'') = Inr (mk_contact n p e c' t)"
proof -
  have v: "str ''VERSION'' \<noteq> str ''FN''" "str ''VERSION'' \<noteq> str ''N''"
    "str ''VERSION'' \<noteq> str ''TEL''" "str ''VERSION'' \<noteq> str ''EMAIL''"
    "str ''VERSION'' \<noteq> str ''ORG''" "str ''VERSION'' \<noteq> str ''X-EVENT-TAG''"
    by (simp_all add: str_def)
  show "parse_line c (str ''BEGIN:VCARD'') = Inr c" "parse_line c (str ''END:VCARD'') = Inr c"
    by (simp_all add: parse_line_skip entry_header)
  show "parse_line (mk_contact n p e c' t) (str ''VERSION:3.0'') = Inr (mk_contact n p e c' t)"
    by (simp add: parse_line_entry[OF entry_header(3)] v)
qed


lemma delete_class_bare:
  "bare_phone p \<Longrightarrow> delete_class (\<lambda>x. is_space x \<or> x = 45 \<or> x = 40 \<or> x = 41) p = p"
  by (induction p) (auto simp: bare_phone_def delete_class_def)

lemma line_ok:
  assumes "k \<noteq> []" "\<forall>c\<in>set k. c \<noteq> 13 \<and> c \<noteq> 10" "\<forall>c\<in>set v. c \<noteq> 13 \<and> c \<noteq> 10"
  shows "k @ v \<noteq> [] \<and> (\<forall>c\<in>set (k @ v). \<not> is_crlf c)"
  using assms by (auto simp: is_crlf_def)

lemma key_ok:
  "str ''FN:'' \<noteq> [] \<and> (\<forall>c\<in>set (str ''FN:''). c \<noteq> 13 \<and> c \<noteq> 10)"
  "str ''N:'' \<noteq> [] \<and> (\<forall>c\<in>set (str ''N:''). c \<noteq> 13 \<and> c \<noteq> 10)"
  "str ''TEL;TYPE=CELL:'' \<noteq> [] \<and> (\<forall>c\<in>set (str ''TEL;TYPE=CELL:''). c \<noteq> 13 \<and> c \<noteq> 10)"
  "str ''EMAIL;TYPE=INTERNET:'' \<noteq> [] \<and>
     (\<forall>c\<in>set (str ''EMAIL;TYPE=INTERNET:''). c \<noteq> 13 \<and> c \<noteq> 10)"
  "str ''ORG:'' \<noteq> [] \<and> (\<forall>c\<in>set (str ''ORG:''). c \<noteq> 13 \<and> c \<noteq> 10)"
  "str ''X-EVENT-TAG:'' \<noteq> [] \<and> (\<forall>c\<in>set (str ''X-EVENT-TAG:''). c \<noteq> 13 \<and> c \<noteq> 10)"
  "str ''BEGIN:VCARD'' \<noteq> [] \<and> (\<forall>c\<in>set (str ''BEGIN:VCARD''). \<not> is_crlf c)"
  "str ''VERSION:3.0'' \<noteq> [] \<and> (\<forall>c\<in>set (str ''VERSION:3.0''). \<not> is_crlf c)"
  "str ''END:VCARD'' \<noteq> [] \<and> (\<forall>c\<in>set (str ''END:VCARD''). \<not> is_crlf c)"
  by (simp_all add: str_def is_crlf_def)

text \<open>
  Claim C1, as stated, fails. The record with the name \<^verbatim>\<open>Jane  Doe\<close>, two spaces between
  the words, has simple ASCII values without a reserved character and a phone without
  white space, hyphens and parentheses; \<^verbatim>\<open>generate\<close> writes the line \<^verbatim>\<open>FN:Jane  Doe\<close> and
  then the line \<^verbatim>\<open>N:Doe;Jane;;;\<close>, built from the white-space separated words, and \<^verbatim>\<open>parse\<close>
  lets the \<^verbatim>\<open>N\<close> line replace the name: it comes back as \<^verbatim>\<open>Jane Doe\<close>, with one space.
\<close>

theorem round_trip_counterexample:
  "plain (str ''Jane  Doe'') \<and> plain (str ''+14155552671'') \<and> plain (str ''jane@acme.com'') \<and>
   plain (str ''Acme Inc.'') \<and> plain (str ''expo'') \<and> bare_phone (str ''+14155552671'') \<and>
   card_double_space F_name = Some (str ''Jane  Doe'') \<and>
   map_sum id (\<lambda>c. map c [F_name, F_phone, F_email, F_company, F_eventTag])
     (parse (generate card_double_space)) =
     Inr [Some (str ''Jane Doe''), Some (str ''+14155552671''), Some (str ''jane@acme.com''),
          Some (str ''Acme Inc.''), Some (str ''expo'')]"
  by (simp add: card_double_space_def plain_def bare_phone_def mk_contact_def codec_defs
      string_defs char_defs Let_def)

text \<open>
  Claim C1, amended. For every record whose five fields are simple ASCII values without
  a reserved character (no backslash, semicolon, comma, carriage return or line feed),
  whose phone has no white space, hyphen or parenthesis, and whose name has no white
  space at either end and single spaces between its words, \<^verbatim>\<open>parse(generate(r))\<close> returns
  a record and it is \<open>r\<close>: every field is reproduced exactly, the empty ones included.
\<close>

theorem round_trip:
  assumes n: "plain n" and p: "plain p" and e: "plain e" and c: "plain c" and t: "plain t"
    and bp: "bare_phone p" and ss: "single_spaced n"
  shows "parse (generate (mk_contact n p e c t)) = Inr (mk_contact n p e c t)"
proof -
  define good :: "jsstring list \<Rightarrow> bool" where
    "good B = (\<forall>l\<in>set B. l \<noteq> [] \<and> (\<forall>c\<in>set l. \<not> is_crlf c))" for B
  define NB where "NB = (if n = [] then [] else name_lines n)"
  define PB where "PB = (if p = [] then [] else [str ''TEL;TYPE=CELL:'' @ p])"
  define EB where "EB = (if e = [] then [] else [str ''EMAIL;TYPE=INTERNET:'' @ e])"
  define CB where "CB = (if c = [] then [] else [str ''ORG:'' @ c])"
  define TB where "TB = (if t = [] then [] else [str ''X-EVENT-TAG:'' @ t])"
  define L where "L = generate_lines (mk_contact n p e c t)"
  have L: "L = [str ''BEGIN:VCARD'', str ''VERSION:3.0''] @ NB @ PB @ EB @ CB @ TB @
                [str ''END:VCARD'']"
    by (simp add: L_def generate_lines_def mk_contact_apply escape_plain n p e c t
        delete_class_bare[OF bp] NB_def PB_def EB_def CB_def TB_def)
  have nocr: "\<forall>x\<in>set v. x \<noteq> 13 \<and> x \<noteq> 10" if "plain v" for v
    using plain_set[OF that] by blast
  obtain nv where nl: "name_lines n = [str ''FN:'' @ n, str ''N:'' @ nv]"
    and nv: "nv \<noteq> []" "\<forall>c\<in>set nv. is_ascii c \<and> c \<noteq> 13 \<and> c \<noteq> 10" and nn: "N_name nv = n"
    using name_lines_plain[OF n ss] by blast
  have nv_nocr: "\<forall>x\<in>set nv. x \<noteq> 13 \<and> x \<noteq> 10" using nv(2) by blast
  have gN: "good NB"
    using line_ok[of "str ''FN:''" n] line_ok[of "str ''N:''" nv] key_ok(1,2) nocr[OF n] nv_nocr
    unfolding good_def NB_def nl by simp
  have gP: "good PB"
    using line_ok[of "str ''TEL;TYPE=CELL:''" p] key_ok(3) nocr[OF p]
    unfolding good_def PB_def by simp
  have gE: "good EB"
    using line_ok[of "str ''EMAIL;TYPE=INTERNET:''" e] key_ok(4) nocr[OF e]
    unfolding good_def EB_def by simp
  have gC: "good CB"
    using line_ok[of "str ''ORG:''" c] key_ok(5) nocr[OF c]
    unfolding good_def CB_def by simp
  have gT: "good TB"
    using line_ok[of "str ''X-EVENT-TAG:''" t] key_ok(6) nocr[OF t]
    unfolding good_def TB_def by simp
  have gH: "good [str ''BEGIN:VCARD'', str ''VERSION:3.0'']" "good [str ''END:VCARD'']"
    using key_ok(7,8,9) unfolding good_def by simp_all
  have good_app: "good (A @ B) = (good A \<and> good B)" for A B
    unfolding good_def by auto
  have gL: "good L"
    unfolding L good_app using gH gN gP gE gC gT by blast
  have Lne: "L \<noteq> []" unfolding L by simp
  have gen_ne: "generate (mk_contact n p e c t) \<noteq> []"
  proof -
    have "L = str ''BEGIN:VCARD'' # tl L" unfolding L by simp
    moreover have "str ''BEGIN:VCARD'' \<noteq> []" using key_ok(7) by blast
    ultimately show ?thesis
      unfolding generate_def L_def[symmetric] using join_Cons_nonempty by metis
  qed
  have sp: "split_runs is_crlf (generate (mk_contact n p e c t)) = L"
    unfolding split_runs_def generate_def L_def[symmetric]
    using split_runs_from_join[OF Lne, of False] gL unfolding good_def by blast
  have bN: "parse_lines (mk_contact [] [] [] [] []) NB = Inr (mk_contact n [] [] [] [])"
    unfolding NB_def nl
    by (simp add: parse_line_plain(1)[OF n] parse_line_N[OF nv] nn)
  have bP: "parse_lines (mk_contact n [] [] [] []) PB = Inr (mk_contact n p [] [] [])"
    unfolding PB_def by (simp add: parse_line_plain(2)[OF p])
  have bE: "parse_lines (mk_contact n p [] [] []) EB = Inr (mk_contact n p e [] [])"
    unfolding EB_def by (simp add: parse_line_plain(3)[OF e])
  have bC: "parse_lines (mk_contact n p e [] []) CB = Inr (mk_contact n p e c [])"
    unfolding CB_def by (simp add: parse_line_plain(4)[OF c])
  have bT: "parse_lines (mk_contact n p e c []) TB = Inr (mk_contact n p e c t)"
    unfolding TB_def by (simp add: parse_line_plain(5)[OF t])
  have "parse_lines (mk_contact [] [] [] [] []) L = Inr (mk_contact n p e c t)"
    unfolding L
    by (simp add: parse_lines_append parse_line_header bN bP bE bC bT)
  then show ?thesis
    unfolding parse_def using gen_ne sp by simp
qed

theorem round_trip_witness:
  "plain (str ''Jane Q Doe'') \<and> plain (str ''+14155552671'') \<and> plain (str ''jane@acme.com'') \<and>
   plain (str ''Acme: R&D Inc.'') \<and> plain (str ''expo 2024'') \<and>
   bare_phone (str ''+14155552671'') \<and> single_spaced (str ''Jane Q Doe'') \<and>
   parse (generate card_single_space) = Inr card_single_space"
proof -
  have 1: "plain (str ''Jane Q Doe'')" "plain (str ''+14155552671'')"
    "plain (str ''jane@acme.com'')" "plain (str ''Acme: R&D Inc.'')" "plain (str ''expo 2024'')"
    by (simp_all add: plain_def str_def is_ascii_def)
  have 2: "bare_phone (str ''+14155552671'')"
    by (simp add: bare_phone_def str_def is_space_def)
  have 3: "single_spaced (str ''Jane Q Doe'')"
    by (simp add: single_spaced_def str_def trim_def split_runs_def is_space_def)
  show ?thesis
    using round_trip [OF 1 2 3] 1 2 3 unfolding card_single_space_def by blast
qed

subsection \<open>Runs of a class and their replacement\<close>

lemma adjacent_Cons: "adjacent p (x # s) = ((s \<noteq> [] \<and> p x \<and> p (hd s)) \<or> adjacent p s)"
  by (cases s) auto

lemma adjacent_append:
  "adjacent p (xs @ ys) =
     (adjacent p xs \<or> adjacent p ys \<or> (xs \<noteq> [] \<and> ys \<noteq> [] \<and> p (last xs) \<and> p (hd ys)))"
proof (induction xs)
  case Nil
  show ?case by simp
next
  case (Cons x xs)
  show ?case
  proof (cases xs)
    case Nil
    then show ?thesis by (auto simp: adjacent_Cons)
  next
    case (Cons a as)
    then show ?thesis using Cons.IH by (auto simp: adjacent_Cons)
  qed
qed

lemma adjacent_rev: "adjacent p (rev s) = adjacent p s"
proof (induction s)
  case Nil
  show ?case by simp
next
  case (Cons x s)
  have "adjacent p (rev (x # s)) = (adjacent p s \<or> (s \<noteq> [] \<and> p (hd s) \<and> p x))"
    by (simp add: adjacent_append Cons.IH last_rev)
  also have "\<dots> = adjacent p (x # s)" by (auto simp: adjacent_Cons)
  finally show ?case .
qed

lemma adjacent_dropWhile: "\<not> adjacent p s \<Longrightarrow> \<not> adjacent p (dropWhile q s)"
proof -
  assume a: "\<not> adjacent p s"
  have "adjacent p (takeWhile q s @ dropWhile q s) = adjacent p s" by simp
  with a show ?thesis unfolding adjacent_append by blast
qed

lemma adjacent_trim: "\<not> adjacent p s \<Longrightarrow> \<not> adjacent p (trim s)"
  by (simp add: trim_def adjacent_rev adjacent_dropWhile)

lemma replace_runs_Nil_iff: "replace_runs k p s = [] \<longleftrightarrow> s = []"
  by (cases s) auto

lemma hd_replace_runs_keep:
  "s \<noteq> [] \<Longrightarrow> \<not> p (hd s) \<Longrightarrow> hd (replace_runs k p s) = hd s"
  by (cases s) auto

lemma hd_replace_runs: "s \<noteq> [] \<Longrightarrow> hd (replace_runs k p s) = 32 \<or> hd (replace_runs k p s) = hd s"
  by (cases s) auto

lemma set_replace_runs: "set (replace_runs k p s) \<subseteq> insert 32 (set s)"
proof (induction k p s rule: replace_runs.induct)
  case (1 k p)
  show ?case by simp
next
  case (2 k p c cs)
  show ?case
  proof (cases "p c \<and> k \<le> Suc (length (takeWhile p cs))")
    case True
    with 2 have "set (replace_runs k p (dropWhile p cs)) \<subseteq> insert 32 (set (dropWhile p cs))"
      by simp
    moreover have "set (dropWhile p cs) \<subseteq> set cs" by (rule set_dropWhileD[THEN subsetI])
    ultimately show ?thesis using True by auto
  next
    case False
    with 2 show ?thesis by auto
  qed
qed

lemma replace_runs_1_none: "\<not> p 32 \<Longrightarrow> c \<in> set (replace_runs 1 p s) \<Longrightarrow> \<not> p c"
proof (induction "1::nat" p s rule: replace_runs.induct)
  case (1 p)
  then show ?case by simp
next
  case (2 p d ds)
  show ?case
  proof (cases "p d")
    case True
    with 2 show ?thesis by auto
  next
    case False
    with 2 show ?thesis by auto
  qed
qed

lemma replace_runs_id: "\<forall>c\<in>set s. \<not> p c \<Longrightarrow> replace_runs k p s = s"
  by (induction s) auto

lemma replace_runs_2_id: "\<not> adjacent p s \<Longrightarrow> replace_runs 2 p s = s"
proof (induction s)
  case Nil
  show ?case by simp
next
  case (Cons c cs)
  from Cons.prems have na: "\<not> adjacent p cs" and nh: "\<not> (cs \<noteq> [] \<and> p c \<and> p (hd cs))"
    by (auto simp: adjacent_Cons)
  have "\<not> (p c \<and> 2 \<le> Suc (length (takeWhile p cs)))"
  proof
    assume h: "p c \<and> 2 \<le> Suc (length (takeWhile p cs))"
    then have "takeWhile p cs \<noteq> []" by auto
    then have "cs \<noteq> [] \<and> p (hd cs)" by (cases cs) (auto split: if_splits)
    with h nh show False by simp
  qed
  then show ?case using Cons.IH[OF na] by auto
qed



lemma replace_runs_2_not_adjacent: "\<not> adjacent p (replace_runs 2 p s)"
proof (induction "2::nat" p s rule: replace_runs.induct)
  case (1 p)
  show ?case by simp
next
  case (2 p c cs)
  show ?case
  proof (cases "p c \<and> 2 \<le> Suc (length (takeWhile p cs))")
    case True
    with 2 have ih: "\<not> adjacent p (replace_runs 2 p (dropWhile p cs))" by simp
    have "\<not> (replace_runs 2 p (dropWhile p cs) \<noteq> [] \<and> p (hd (replace_runs 2 p (dropWhile p cs))))"
    proof
      assume h: "replace_runs 2 p (dropWhile p cs) \<noteq> [] \<and> p (hd (replace_runs 2 p (dropWhile p cs)))"
      then have ne: "dropWhile p cs \<noteq> []" by (simp add: replace_runs_Nil_iff)
      then have "\<not> p (hd (dropWhile p cs))" by (rule hd_dropWhile)
      with ne have "hd (replace_runs 2 p (dropWhile p cs)) = hd (dropWhile p cs)"
        by (simp add: hd_replace_runs_keep)
      with h \<open>\<not> p (hd (dropWhile p cs))\<close> show False by simp
    qed
    with ih True show ?thesis by (auto simp: adjacent_Cons)
  next
    case False
    with 2 have ih: "\<not> adjacent p (replace_runs 2 p cs)" by simp
    have "\<not> (replace_runs 2 p cs \<noteq> [] \<and> p c \<and> p (hd (replace_runs 2 p cs)))"
    proof
      assume h: "replace_runs 2 p cs \<noteq> [] \<and> p c \<and> p (hd (replace_runs 2 p cs))"
      then have ne: "cs \<noteq> []" by (simp add: replace_runs_Nil_iff)
      from h False have "takeWhile p cs = []" by (cases "takeWhile p cs") auto
      with ne have "\<not> p (hd cs)" by (cases cs) (auto split: if_splits)
      with ne have "hd (replace_runs 2 p cs) = hd cs" by (simp add: hd_replace_runs_keep)
      with h \<open>\<not> p (hd cs)\<close> show False by simp
    qed
    with ih False show ?thesis by (auto simp: adjacent_Cons)
  qed
qed

lemma replace_runs_keeps_not_adjacent:
  "\<not> q 32 \<Longrightarrow> \<not> adjacent q s \<Longrightarrow> \<not> adjacent q (replace_runs k p s)"
proof (induction k p s rule: replace_runs.induct)
  case (1 k p)
  show ?case by simp
next
  case (2 k p c cs)
  from "2.prems" have nacs: "\<not> adjacent q cs" by (auto simp: adjacent_Cons)
  show ?case
  proof (cases "p c \<and> k \<le> Suc (length (takeWhile p cs))")
    case True
    have "\<not> adjacent q (dropWhile p cs)" using nacs by (rule adjacent_dropWhile)
    with 2 True have "\<not> adjacent q (replace_runs k p (dropWhile p cs))" by simp
    with True "2.prems"(1) show ?thesis by (auto simp: adjacent_Cons)
  next
    case False
    with 2 nacs have ih: "\<not> adjacent q (replace_runs k p cs)" by simp
    have "\<not> (replace_runs k p cs \<noteq> [] \<and> q c \<and> q (hd (replace_runs k p cs)))"
    proof
      assume h: "replace_runs k p cs \<noteq> [] \<and> q c \<and> q (hd (replace_runs k p cs))"
      then have ne: "cs \<noteq> []" by (simp add: replace_runs_Nil_iff)
      from h "2.prems"(1) have "hd (replace_runs k p cs) \<noteq> 32" by auto
      with hd_replace_runs[OF ne, of k p] have "hd (replace_runs k p cs) = hd cs" by simp
      with h ne have "cs \<noteq> [] \<and> q c \<and> q (hd cs)" by simp
      with "2.prems"(2) show False by (simp add: adjacent_Cons)
    qed
    with ih False show ?thesis by (auto simp: adjacent_Cons)
  qed
qed

lemma blank_unkept_keeps_not_adjacent:
  "\<not> q 32 \<Longrightarrow> \<not> adjacent q s \<Longrightarrow> \<not> adjacent q (blank_unkept s)"
proof (induction s)
  case Nil
  show ?case by (simp add: blank_unkept_def)
next
  case (Cons c cs)
  then have ih: "\<not> adjacent q (blank_unkept cs)" by (auto simp: adjacent_Cons)
  from Cons.prems show ?case using ih
    by (cases cs) (auto simp: adjacent_Cons blank_unkept_def)
qed

lemma all_replace_runs:
  "\<forall>c\<in>set s. P c \<Longrightarrow> P 32 \<Longrightarrow> \<forall>c\<in>set (replace_runs k p s). P c"
  using set_replace_runs[of k p s] by auto

lemma all_blank_unkept:
  "\<forall>c\<in>set s. P c \<Longrightarrow> P 32 \<Longrightarrow> \<forall>c\<in>set (blank_unkept s). P c"
  by (auto simp: blank_unkept_def)

lemma kept_blank_unkept: "\<forall>c\<in>set (blank_unkept s). is_kept c"
  by (auto simp: blank_unkept_def is_kept_def is_space_def)

lemma set_trim: "set (trim s) \<subseteq> set s"
proof
  fix c
  assume "c \<in> set (trim s)"
  then have "c \<in> set (dropWhile is_space (rev (dropWhile is_space s)))"
    by (simp add: trim_def)
  then have "c \<in> set (rev (dropWhile is_space s))" by (rule set_dropWhileD)
  then have "c \<in> set (dropWhile is_space s)" by simp
  then show "c \<in> set s" by (rule set_dropWhileD)
qed

lemma all_trim: "\<forall>c\<in>set s. P c \<Longrightarrow> \<forall>c\<in>set (trim s). P c"
  using set_trim[of s] by auto

lemma last_dropWhile: "dropWhile P xs \<noteq> [] \<Longrightarrow> last (dropWhile P xs) = last xs"
  by (induction xs) (auto split: if_splits)

lemma trim_trim: "trim (trim s) = trim s"
proof -
  let ?a = "dropWhile is_space s"
  let ?b = "dropWhile is_space (rev ?a)"
  have 1: "dropWhile is_space (rev ?b) = rev ?b"
  proof (cases "?b = []")
    case True
    show ?thesis unfolding True by simp
  next
    case False
    then have "last ?b = last (rev ?a)" by (rule last_dropWhile)
    moreover have ane: "?a \<noteq> []"
    proof
      assume "?a = []"
      then have "?b = []" by (simp only: rev.simps dropWhile.simps)
      with False show False by simp
    qed
    ultimately have "last ?b = hd ?a" by (simp add: last_rev)
    moreover have "\<not> is_space (hd ?a)" using ane by (rule hd_dropWhile)
    ultimately have "\<not> is_space (hd (rev ?b))" using False by (simp add: hd_rev)
    then show ?thesis by (simp add: dropWhile_eq_self_iff)
  qed
  show ?thesis unfolding trim_def 1 by simp
qed

subsection \<open>What cleanText leaves\<close>

lemma cleanText_clean: "\<forall>c\<in>set (cleanText v s). is_clean v c"
proof (cases "s = []")
  case True
  then show ?thesis by (simp add: cleanText_def)
next
  case False
  let ?s0 = "strip_edges (normalize_dashes s)"
  let ?s1 = "replace_runs 1 (is_garbage v) ?s0"
  let ?s2 = "replace_runs 2 is_dash_us ?s1"
  let ?s3 = "replace_runs 2 is_space ?s2"
  let ?s4 = "replace_runs 1 (\<lambda>c. \<not> is_ascii c) ?s3"
  let ?s5 = "blank_unkept ?s4"
  let ?s6 = "replace_runs 2 is_space ?s5"
  have g32: "\<not> is_garbage v 32" by (cases v) (simp_all add: is_garbage_def)
  have a32: "is_ascii 32" by (simp add: is_ascii_def)
  have k32: "is_kept 32" by (simp add: is_kept_def is_space_def)
  have g1: "\<forall>c\<in>set ?s1. \<not> is_garbage v c"
    using replace_runs_1_none[of "is_garbage v"] g32 by blast
  have g3: "\<forall>c\<in>set ?s3. \<not> is_garbage v c"
    by (intro all_replace_runs g1 g32)
  have a4: "\<forall>c\<in>set ?s4. is_ascii c"
    using replace_runs_1_none[of "\<lambda>c. \<not> is_ascii c"] a32 by blast
  have g4: "\<forall>c\<in>set ?s4. \<not> is_garbage v c"
    by (intro all_replace_runs g3 g32)
  have "\<forall>c\<in>set ?s4. is_ascii c \<and> \<not> is_garbage v c" using a4 g4 by blast
  then have "\<forall>c\<in>set ?s5. is_ascii c \<and> \<not> is_garbage v c"
    by (rule all_blank_unkept) (simp add: a32 g32)
  then have "\<forall>c\<in>set ?s5. is_clean v c"
    using kept_blank_unkept[of ?s4] by (auto simp: is_clean_def)
  then have "\<forall>c\<in>set ?s6. is_clean v c"
    by (rule all_replace_runs) (simp add: is_clean_def a32 g32 k32)
  then have "\<forall>c\<in>set (trim ?s6). is_clean v c" by (rule all_trim)
  then show ?thesis using False by (simp add: cleanText_def)
qed

lemma cleanText_not_adjacent_dash: "\<not> adjacent is_dash_us (cleanText v s)"
proof (cases "s = []")
  case True
  then show ?thesis by (simp add: cleanText_def)
next
  case False
  have d32: "\<not> is_dash_us 32" by (simp add: is_dash_us_def)
  show ?thesis
    using False
    by (simp add: cleanText_def adjacent_trim replace_runs_keeps_not_adjacent
        blank_unkept_keeps_not_adjacent replace_runs_2_not_adjacent d32)
qed

lemma cleanText_not_adjacent_space: "\<not> adjacent is_space (cleanText v s)"
  by (cases "s = []") (simp_all add: cleanText_def adjacent_trim replace_runs_2_not_adjacent)

lemma cleanText_trimmed: "trim (cleanText v s) = cleanText v s"
proof (cases "s = []")
  case True
  then show ?thesis by (simp add: cleanText_def trim_def)
next
  case False
  then show ?thesis by (simp add: cleanText_def trim_trim)
qed

lemma clean_facts:
  assumes "is_clean v c"
  shows "is_edge c" and "\<not> is_dash c" and "\<not> is_garbage v c" and "is_ascii c" and "is_kept c"
    and "c \<noteq> 43" and "c \<noteq> 40" and "c \<noteq> 41"
  using assms
  by (auto simp: is_clean_def is_edge_def is_kept_def is_word_def is_garbage_def is_dash_def
      is_ascii_def)

lemma strip_edges_id: "\<forall>c\<in>set s. is_edge c \<Longrightarrow> strip_edges s = s"
proof -
  assume a: "\<forall>c\<in>set s. is_edge c"
  have 1: "dropWhile (\<lambda>c. \<not> is_edge c) s = s"
    using a by (cases s) auto
  have 2: "dropWhile (\<lambda>c. \<not> is_edge c) (rev s) = rev s"
  proof (cases "s = []")
    case True
    then show ?thesis by simp
  next
    case False
    then have "last s \<in> set s" by simp
    with a have "is_edge (last s)" by blast
    with False show ?thesis by (simp add: dropWhile_eq_self_iff hd_rev)
  qed
  show ?thesis by (simp add: strip_edges_def 1 2)
qed

lemma cleanText_fixed:
  assumes cl: "\<forall>c\<in>set t. is_clean v c"
    and nd: "\<not> adjacent is_dash_us t"
    and ns: "\<not> adjacent is_space t"
    and tr: "trim t = t"
  shows "cleanText v t = t"
proof (cases "t = []")
  case True
  then show ?thesis by (simp add: cleanText_def)
next
  case False
  have "\<And>c. c \<in> set t \<Longrightarrow> \<not> is_dash c" using cl clean_facts(2) by blast
  then have 0: "normalize_dashes t = t"
    by (auto simp: normalize_dashes_def intro!: map_idI)
  have "\<forall>c\<in>set t. is_edge c" using cl clean_facts(1) by blast
  then have 1: "strip_edges t = t" by (rule strip_edges_id)
  have "\<forall>c\<in>set t. \<not> is_garbage v c" using cl clean_facts(3) by blast
  then have 2: "replace_runs 1 (is_garbage v) t = t" by (rule replace_runs_id)
  have 3: "replace_runs 2 is_dash_us t = t" using nd by (rule replace_runs_2_id)
  have 4: "replace_runs 2 is_space t = t" using ns by (rule replace_runs_2_id)
  have "\<forall>c\<in>set t. \<not> \<not> is_ascii c" using cl clean_facts(4) by blast
  then have 5: "replace_runs 1 (\<lambda>c. \<not> is_ascii c) t = t" by (rule replace_runs_id)
  have "\<And>c. c \<in> set t \<Longrightarrow> is_kept c" using cl clean_facts(5) by blast
  then have 6: "blank_unkept t = t"
    by (auto simp: blank_unkept_def intro!: map_idI)
  show ?thesis unfolding cleanText_def by (simp only: False if_False 0 1 2 3 4 5 6 tr)
qed

text \<open>
  Claim C9. \<^verbatim>\<open>cleanText\<close> is idempotent: for every string, in both copies, cleaning the
  cleaned text gives the cleaned text.
\<close>

theorem cleanText_idempotent: "cleanText v (cleanText v s) = cleanText v s"
  by (rule cleanText_fixed)
     (rule cleanText_clean cleanText_not_adjacent_dash cleanText_not_adjacent_space
        cleanText_trimmed)+

theorem cleanText_idempotent_witness:
  "cleanText Web (cleanText Web ([8226, 8226] @ str ''John@@@Smith--x'' @ [8226])) =
     cleanText Web ([8226, 8226] @ str ''John@@@Smith--x'' @ [8226]) \<and>
   cleanText Web ([8226, 8226] @ str ''John@@@Smith--x'' @ [8226]) = str ''John@@@Smith x''"
  using cleanText_idempotent [of Web "[8226, 8226] @ str ''John@@@Smith--x'' @ [8226]"]
  by (simp add: clean_defs string_defs char_defs)

text \<open>
  Claim C4. The garbage class of step 3 holds the plus sign in both copies, so a plus
  sign inside the text does not survive: \<^verbatim>\<open>cleanText\<close> turns the text
  \<^verbatim>\<open>Tel +44 20 7946\<close> into \<^verbatim>\<open>Tel 44 20 7946\<close>, and the step itself turns the plus sign
  into a space.
\<close>

theorem cleanText_drops_plus:
  "cleanText Web (str ''Tel +44 20 7946'') = str ''Tel 44 20 7946'' \<and>
   cleanText Mobile (str ''Tel +44 20 7946'') = str ''Tel 44 20 7946'' \<and>
   replace_runs 1 (is_garbage Web) (str ''4+4'') = str ''4 4'' \<and>
   replace_runs 1 (is_garbage Mobile) (str ''4+4'') = str ''4 4''"
  by (simp add: clean_defs string_defs char_defs)

section \<open>Properties of the inference engine\<close>

subsection \<open>Matches of a pattern\<close>

lemma ends_range:
  "e \<in> set (ends r s i) \<Longrightarrow>
   i \<le> e \<and> (i < e \<longrightarrow> e \<le> length s) \<and> (\<forall>k. i \<le> k \<and> k < e \<longrightarrow> class_of r (s ! k))"
proof (induction r arbitrary: i e)
  case (Cls p lo hi)
  let ?n = "length (takeWhile p (drop i s))"
  let ?m = "case hi of None \<Rightarrow> ?n | Some h \<Rightarrow> min h ?n"
  from Cls have e: "i + lo \<le> e \<and> e \<le> i + ?m" by (auto simp: Let_def split: if_splits)
  have mn: "?m \<le> ?n" by (cases hi) auto
  have nl: "?n \<le> length s - i" using length_takeWhile_le[of p "drop i s"] by simp
  have "\<forall>k. i \<le> k \<and> k < e \<longrightarrow> p (s ! k)"
  proof (intro allI impI)
    fix k assume k: "i \<le> k \<and> k < e"
    then have kn: "k - i < ?n" using e mn by arith
    then have "p (takeWhile p (drop i s) ! (k - i))" by (meson nth_mem set_takeWhileD)
    moreover have "takeWhile p (drop i s) ! (k - i) = drop i s ! (k - i)"
      using kn by (rule takeWhile_nth)
    moreover have "drop i s ! (k - i) = s ! k" using k kn nl by simp
    ultimately show "p (s ! k)" by simp
  qed
  moreover have "i < e \<longrightarrow> e \<le> length s" using e mn nl by arith
  ultimately show ?case using e by simp
next
  case (Seq a b)
  then obtain m where m: "m \<in> set (ends a s i)" and e: "e \<in> set (ends b s m)" by auto
  from Seq.IH(1)[OF m] Seq.IH(2)[OF e] show ?case
    by (auto simp: not_less) (metis le_less_linear le_trans less_le_trans)+
next
  case (Alt a b)
  then show ?case by auto
next
  case Eps
  then show ?case by simp
next
  case WordB
  then show ?case by (simp split: if_splits)
qed


lemma substring_class:
  assumes "e \<in> set (ends r s j)" and "c \<in> set (substring s j e)"
  shows "class_of r c \<and> c \<in> set s"
proof -
  from ends_range[OF assms(1)] have je: "j \<le> e" and le: "j < e \<longrightarrow> e \<le> length s"
    and cl: "\<forall>k. j \<le> k \<and> k < e \<longrightarrow> class_of r (s ! k)" by auto
  from assms(2) je have c: "c \<in> set (take (e - j) (drop j s))"
    by (simp add: substring_def max_def min_def)
  then have "j < e" by (cases "j < e") auto
  with le have el: "e \<le> length s" by simp
  from c obtain n where n: "n < length (take (e - j) (drop j s))"
    and cn: "take (e - j) (drop j s) ! n = c" by (auto simp: in_set_conv_nth)
  from n have ne: "n < e - j" by simp
  with el have "take (e - j) (drop j s) ! n = s ! (j + n)" by simp
  with cn have "c = s ! (j + n)" by simp
  moreover have "j + n < e" using ne by arith
  ultimately show ?thesis using cl el by (auto intro: nth_mem)
qed

lemma scan_Some: "scan r s js = Some (j, e) \<Longrightarrow> e \<in> set (ends r s j)"
  by (induction js) (auto split: list.splits)

lemma exec_from_Some: "exec_from r s i = Some (j, e) \<Longrightarrow> e \<in> set (ends r s j)"
  by (auto simp: exec_from_def dest: scan_Some)

lemma matches_at_none: "scan r s js = None \<Longrightarrow> matches_at r s nxt js = []"
  by (induction js arbitrary: nxt) (auto split: list.splits)

lemma matches_at_first:
  "scan r s js = Some (j, e) \<Longrightarrow> \<forall>k\<in>set js. nxt \<le> k \<Longrightarrow>
   \<exists>ms. matches_at r s nxt js = substring s j e # ms"
  by (induction js arbitrary: nxt) (auto split: list.splits)

lemma match_global_none: "exec_from r s 0 = None \<Longrightarrow> match_global r s = None"
  by (simp add: match_global_def exec_from_def matches_at_none)

lemma match_global_first:
  "exec_from r s 0 = Some (j, e) \<Longrightarrow> \<exists>ms. match_global r s = Some (substring s j e # ms)"
proof -
  assume a: "exec_from r s 0 = Some (j, e)"
  then have "scan r s [0 ..< Suc (length s)] = Some (j, e)" by (simp add: exec_from_def)
  from matches_at_first[OF this, of 0] obtain ms where
    "matches_at r s 0 [0 ..< Suc (length s)] = substring s j e # ms" by auto
  then show ?thesis by (simp add: match_global_def)
qed

lemma match_phone_first:
  "(case fst (match_phone st t) of Some (m # ms) \<Rightarrow> trim m | _ \<Rightarrow> []) = trim (first_phone_match t)"
proof (cases "exec_from rx_phone t 0")
  case None
  note np = this
  show ?thesis
  proof (cases "exec_from rx_phoneAlt t 0")
    case None
    with np show ?thesis
      by (simp add: match_phone_def first_phone_match_def match_global_none trim_def)
  next
    case (Some je)
    obtain j e where "je = (j, e)" by (cases je)
    with Some have s: "exec_from rx_phoneAlt t 0 = Some (j, e)" by simp
    from match_global_first[OF s] obtain ms where
      "match_global rx_phoneAlt t = Some (substring t j e # ms)" by auto
    with np s show ?thesis
      by (simp add: match_phone_def first_phone_match_def match_global_none)
  qed
next
  case (Some je)
  obtain j e where "je = (j, e)" by (cases je)
  with Some have s: "exec_from rx_phone t 0 = Some (j, e)" by simp
  from match_global_first[OF s] obtain ms where
    "match_global rx_phone t = Some (substring t j e # ms)" by auto
  with s show ?thesis by (simp add: match_phone_def first_phone_match_def)
qed

lemma delete_sep_trim: "delete_class is_sep (trim m) = delete_class is_sep m"
proof -
  have 1: "\<And>s. filter (\<lambda>c. \<not> is_sep c) (dropWhile is_space s) = filter (\<lambda>c. \<not> is_sep c) s"
  proof -
    fix s show "filter (\<lambda>c. \<not> is_sep c) (dropWhile is_space s) = filter (\<lambda>c. \<not> is_sep c) s"
      by (induction s) (auto simp: is_sep_def)
  qed
  show ?thesis
    unfolding delete_class_def trim_def
    by (simp only: rev_filter[symmetric] 1 rev_rev_ident)
qed

lemma normalize_phone_trim: "normalize_phone v (trim m) = normalize_phone v m"
  by (cases v) (simp_all add: normalize_phone_def delete_sep_trim)

lemma normalize_phone_Nil: "normalize_phone v [] = []"
  by (cases v) (simp_all add: normalize_phone_def delete_class_def strip_plus_one_def)

subsection \<open>The blocks of extractContactInfo\<close>

lemma bindE_simps [simp]: "bindE (Inr x) f = f x" "bindE (Inl e) f = Inl e"
  by (simp_all add: bindE_def)

lemma deref_at_index_0 [simp]: "xs \<noteq> [] \<Longrightarrow> deref (at_index xs 0) = Inr (hd xs)"
  by (cases xs) (simp_all add: deref_def at_index_def)

lemma mk4_upd:
  "(mk4 n p e c)(F_name \<mapsto> x) = mk4 x p e c"
  "(mk4 n p e c)(F_phone \<mapsto> x) = mk4 n x e c"
  "(mk4 n p e c)(F_email \<mapsto> x) = mk4 n p x c"
  "(mk4 n p e c)(F_company \<mapsto> x) = mk4 n p e x"
  by (auto simp: mk4_def)

lemma mk4_apply:
  "mk4 n p e c F_name = Some n" "mk4 n p e c F_phone = Some p"
  "mk4 n p e c F_email = Some e" "mk4 n p e c F_company = Some c"
  "mk4 n p e c F_eventTag = None"
  by (auto simp: mk4_def)

lemma contact0_mk4: "contact0 = mk4 [] [] [] []"
  by (simp add: contact0_def mk4_def)

lemma extract_email_mk4: "\<exists>e'. extract_email (mk4 n p e c) t = Inr (mk4 n p e' c)"
  by (cases "match_global rx_email t")
     (auto simp: extract_email_def mk4_upd split: list.splits)

lemma extract_phone_mk4:
  "extract_phone (mk4 n p e c) pm =
     Inr (mk4 n (case pm of Some (m # ms) \<Rightarrow> trim m | _ \<Rightarrow> p) e c)"
  by (auto simp: extract_phone_def mk4_upd split: option.splits list.splits)

lemma resplit_total: "\<exists>ls. resplit v lines = Inr ls"
  by (cases lines) (auto simp: resplit_def)

lemma deref_Some [simp]: "deref (Some x) = Inr x"
  by (simp add: deref_def)

lemma capitalized_eq:
  "capitalized w = Inr (w \<noteq> [] \<and> toUpperCase [hd w] = [hd w] \<and> is_upper (hd w))"
  by (cases w) (simp_all add: capitalized_def)

lemma capitalized_total: "\<exists>b. capitalized w = Inr b"
  by (simp add: capitalized_eq)

lemma every_capitalized_eq:
  "every capitalized ws =
     Inr (list_all (\<lambda>w. w \<noteq> [] \<and> toUpperCase [hd w] = [hd w] \<and> is_upper (hd w)) ws)"
  by (induction ws) (auto simp: capitalized_eq)

lemma classify_words_total: "\<exists>cl. classify_words line = Inr cl"
  by (simp add: classify_words_def Let_def every_capitalized_eq)

lemma classify_keywords_total: "\<exists>cl. classify_keywords line = Inr cl"
  using classify_words_total[of line] by (auto simp: classify_keywords_def Let_def)

lemma classify_website_total: "\<exists>r. classify_website st line = Inr r"
  using classify_keywords_total[of line]
  by (auto simp: classify_website_def Let_def split: prod.splits)

lemma classify_phone_total: "\<exists>r. classify_phone st line = Inr r"
  using classify_website_total
  by (auto simp: classify_phone_def Let_def split: prod.splits)

lemma classifyLine_total: "\<exists>r. classifyLine st line = Inr r"
  using classify_phone_total
  by (auto simp: classifyLine_def Let_def split: prod.splits)

lemma classify_all_total: "\<exists>cls st'. classify_all st ls = Inr (cls, st')"
proof (induction ls arbitrary: st)
  case Nil
  show ?case by simp
next
  case (Cons l ls)
  obtain cl st1 where 1: "classifyLine st l = Inr (cl, st1)"
    using classifyLine_total[of st l] by (metis surj_pair)
  obtain cls st2 where 2: "classify_all st1 ls = Inr (cls, st2)"
    using Cons[of st1] by blast
  show ?case by (simp add: 1 2)
qed

lemma extract_name_mk4: "\<exists>n'. extract_name v (mk4 n p e c) cls = Inr (mk4 n' p e c)"
  by (auto simp: extract_name_def Let_def mk4_upd split: list.splits)

lemma extract_company_mk4: "\<exists>c'. extract_company v (mk4 n p e c) cls = Inr (mk4 n p e c')"
proof -
  let ?cl = "filter (\<lambda>cl. (type cl = T_company \<and> confidence cl \<ge> 8) \<or>
                         (type cl = T_title \<and> confidence cl \<ge> 7)) cls"
  show ?thesis
  proof (cases ?cl)
    case Nil
    then show ?thesis
      by (auto simp: extract_company_def Let_def mk4_upd split: list.splits)
  next
    case (Cons a as)
    then show ?thesis
      by (cases "find (\<lambda>cl. type cl = T_company) (a # as)")
         (auto simp: extract_company_def Let_def mk4_upd)
  qed
qed

lemma normalizeFields_mk4: "\<exists>c'. normalizeFields v (mk4 n p e c) cls = mk4 n p e c'"
  by (auto simp: normalizeFields_def mk4_upd mk4_apply split: option.splits)

lemma final_cleaning_mk4:
  "final_cleaning v (mk4 n p e c) =
     mk4 (cleanText v n) (if p = [] then [] else normalize_phone v p)
         (if e = [] then [] else toLowerCase (trim e)) (cleanText v c)"
  by (simp add: final_cleaning_def Let_def mk4_upd mk4_apply cleanText_of_def)

lemma extractContactInfo_shape:
  "\<exists>n e c st'. extractContactInfo v st text =
     Inr (mk4 n (normalize_phone v (first_phone_match (cleanText v text))) e c, st')"
proof (cases "text = []")
  case True
  have "first_phone_match [] = []"
    by (simp add: first_phone_match_def rx_defs engine_defs)
  with True show ?thesis
    by (auto simp: extractContactInfo_def contact0_mk4 cleanText_def normalize_phone_Nil)
next
  case False
  let ?t = "cleanText v text"
  let ?pm = "fst (match_phone (st\<lparr>email_lastIndex := 0\<rparr>) ?t)"
  let ?st1 = "snd (match_phone (st\<lparr>email_lastIndex := 0\<rparr>) ?t)"
  obtain e1 where 1: "extract_email contact0 ?t = Inr (mk4 [] [] e1 [])"
    using extract_email_mk4[of "[]" "[]" "[]" "[]" ?t] by (auto simp: contact0_mk4)
  have 2: "extract_phone (mk4 [] [] e1 []) ?pm = Inr (mk4 [] (trim (first_phone_match ?t)) e1 [])"
    by (simp add: extract_phone_mk4 match_phone_first)
  obtain ls where 3: "resplit v (text_lines v ?t) = Inr ls" using resplit_total by blast
  obtain cls st2 where 4: "classify_all ?st1 ls = Inr (cls, st2)"
    using classify_all_total by blast
  obtain n3 where 5: "extract_name v (mk4 [] (trim (first_phone_match ?t)) e1 []) cls =
      Inr (mk4 n3 (trim (first_phone_match ?t)) e1 [])"
    using extract_name_mk4 by blast
  obtain c4 where 6: "extract_company v (mk4 n3 (trim (first_phone_match ?t)) e1 []) cls =
      Inr (mk4 n3 (trim (first_phone_match ?t)) e1 c4)"
    using extract_company_mk4 by blast
  obtain c5 where 7: "normalizeFields v (mk4 n3 (trim (first_phone_match ?t)) e1 c4) cls =
      mk4 n3 (trim (first_phone_match ?t)) e1 c5"
    using normalizeFields_mk4 by blast
  have 8: "(if trim (first_phone_match ?t) = [] then []
            else normalize_phone v (trim (first_phone_match ?t))) =
           normalize_phone v (first_phone_match ?t)"
  proof (cases "trim (first_phone_match ?t) = []")
    case True
    have "normalize_phone v (first_phone_match ?t) = normalize_phone v (trim (first_phone_match ?t))"
      by (simp only: normalize_phone_trim)
    with True show ?thesis by (simp add: normalize_phone_Nil)
  next
    case False
    then show ?thesis by (simp add: normalize_phone_trim)
  qed
  have "extractContactInfo v st text =
      Inr (final_cleaning v (mk4 n3 (trim (first_phone_match ?t)) e1 c5), st2)"
    using False by (simp add: extractContactInfo_def Let_def split_beta 1 2 3 4 5 6 7)
  then show ?thesis by (simp only: final_cleaning_mk4 8) blast
qed

lemma class_of_phone:
  "class_of rx_phone c \<or> class_of rx_phoneAlt c \<Longrightarrow>
   c = 43 \<or> c = 40 \<or> c = 41 \<or> is_digit c \<or> is_sep c"
  by (auto simp: rx_phone_def rx_phoneAlt_def opt_lit_def)

lemma first_phone_match_chars:
  assumes "c \<in> set (first_phone_match t)"
  shows "c \<in> set t \<and> (class_of rx_phone c \<or> class_of rx_phoneAlt c)"
proof (cases "exec_from rx_phone t 0")
  case None
  note np = this
  show ?thesis
  proof (cases "exec_from rx_phoneAlt t 0")
    case None
    with np assms show ?thesis by (simp add: first_phone_match_def)
  next
    case (Some je)
    obtain j e where je: "je = (j, e)" by (cases je)
    with Some np assms have "c \<in> set (substring t j e)" by (simp add: first_phone_match_def)
    moreover from Some je have "e \<in> set (ends rx_phoneAlt t j)" by (auto dest: exec_from_Some)
    ultimately show ?thesis using substring_class by blast
  qed
next
  case (Some je)
  obtain j e where je: "je = (j, e)" by (cases je)
  with Some assms have "c \<in> set (substring t j e)" by (simp add: first_phone_match_def)
  moreover from Some je have "e \<in> set (ends rx_phone t j)" by (auto dest: exec_from_Some)
  ultimately show ?thesis using substring_class by blast
qed

lemma set_strip_plus_one: "set (strip_plus_one p) \<subseteq> set p"
  by (auto simp: strip_plus_one_def dest: in_set_dropD)

lemma phone_digits:
  "list_all is_digit (normalize_phone v (first_phone_match (cleanText v text)))"
proof -
  let ?m = "first_phone_match (cleanText v text)"
  have d: "\<forall>c\<in>set (delete_class is_sep ?m). is_digit c"
  proof
    fix c assume "c \<in> set (delete_class is_sep ?m)"
    then have c: "c \<in> set ?m" and ns: "\<not> is_sep c" by (auto simp: delete_class_def)
    from first_phone_match_chars[OF c] have ct: "c \<in> set (cleanText v text)"
      and cl: "class_of rx_phone c \<or> class_of rx_phoneAlt c" by auto
    from ct cleanText_clean have "is_clean v c" by blast
    then have "c \<noteq> 43" "c \<noteq> 40" "c \<noteq> 41" by (auto dest: clean_facts)
    with class_of_phone[OF cl] ns show "is_digit c" by auto
  qed
  show ?thesis
  proof (cases v)
    case Web
    with d set_strip_plus_one[of "delete_class is_sep ?m"] show ?thesis
      by (auto simp: normalize_phone_def list_all_iff)
  next
    case Mobile
    with d show ?thesis by (auto simp: normalize_phone_def list_all_iff)
  qed
qed

lemma parse_returns: "\<exists>c. parse s = Inr c \<and> dom c = UNIV"
proof -
  have "\<And>n p e c t. dom (mk_contact n p e c t) = UNIV"
  proof -
    fix n p e c t
    have "\<And>f. f \<in> dom (mk_contact n p e c t)"
    proof -
      fix f show "f \<in> dom (mk_contact n p e c t)" by (cases f) (auto simp: mk_contact_def)
    qed
    then show "dom (mk_contact n p e c t) = UNIV" by blast
  qed
  then show ?thesis
    by (cases "s = []") (auto simp: parse_def parse_lines_general)
qed







text \<open>
  Claim C3. \<^verbatim>\<open>extractContactInfo\<close> is meant to depend on its argument only. It does not:
  the patterns of \<^verbatim>\<open>this.patterns\<close> have the \<^verbatim>\<open>g\<close> flag, and \<^verbatim>\<open>classifyLine\<close> calls
  \<^verbatim>\<open>test\<close> on them, which starts at the \<^verbatim>\<open>lastIndex\<close> the previous \<^verbatim>\<open>test\<close> left. On a new
  engine the first call on the card below classifies its second line as a phone number
  (the \<^verbatim>\<open>phoneAlt\<close> pattern matches its digits and its \<^verbatim>\<open>lastIndex\<close> stays at 17), so
  the company is empty; the second call on the same card starts that \<^verbatim>\<open>test\<close> at 17,
  finds nothing, and the line becomes the company.
\<close>

theorem two_calls_differ:
  "map_sum id (\<lambda>(r1, r2). (r1 F_company, r2 F_company))
     (extract_twice Web new_patterns card_two_calls card_two_calls) =
     Inr (Some [], Some (str ''Acme Inc 12 34 56'')) \<and>
   map_sum id (\<lambda>(r1, r2). (r1 F_company, r2 F_company))
     (extract_twice Mobile new_patterns card_two_calls card_two_calls) =
     Inr (Some [], Some (str ''Acme Inc 12 34 56''))"
  by (simp add: card_two_calls_def all_defs)

text \<open>
  Claim C5, as stated, fails: the copy that strips the country code is the web one. On
  the text \<^verbatim>\<open>+1 415 555 2671\<close> the mobile copy returns the phone 14155552671 and the web
  copy 4155552671.
\<close>

theorem country_code_counterexample:
  "field_of F_phone (extractContactInfo Mobile new_patterns (str ''+1 415 555 2671'')) =
     Inr (Some (str ''14155552671'')) \<and>
   field_of F_phone (extractContactInfo Web new_patterns (str ''+1 415 555 2671'')) =
     Inr (Some (str ''4155552671''))"
  by (simp add: field_of_def all_defs)

text \<open>
  Claim C5, amended. For every engine state and every text, the phone of the returned
  record is the first phone match in the normalized text with every white-space,
  hyphen and dot deleted; in the web copy only, one leading \<open>1\<close>, with a \<open>+\<close> before
  it if there is one, is deleted as well.
\<close>

theorem phone_value:
  "\<exists>c st'. extractContactInfo v st text = Inr (c, st') \<and>
     c F_phone = Some (case v of
         Mobile \<Rightarrow> delete_class is_sep (first_phone_match (cleanText v text))
       | Web \<Rightarrow> strip_plus_one (delete_class is_sep (first_phone_match (cleanText v text))))"
  using extractContactInfo_shape[of v st "text"]
  by (cases v) (auto simp: mk4_apply normalize_phone_def)

theorem phone_value_witness:
  "(\<exists>c st'. extractContactInfo Web new_patterns (str ''1 (415) 555-2671'') = Inr (c, st') \<and>
      c F_phone = Some (str ''4155552671'')) \<and>
   first_phone_match (cleanText Web (str ''1 (415) 555-2671'')) = str ''1 415 555-2671''"
  using phone_value [of Web new_patterns "str ''1 (415) 555-2671''"]
  by (simp add: first_phone_match_def strip_plus_one_def char_defs rx_defs engine_defs
      string_defs clean_defs)

lemma parse_no_line:
  "\<exists>c. parse s = Inr c \<and> dom c = UNIV \<and> (\<forall>f. no_line s f \<longrightarrow> c f = Some [])"
proof -
  let ?ls = "split_runs is_crlf s"
  let ?c = "mk_contact
           (last_or [] (name_values ?ls))
           (first_or [] (values_of (str ''TEL'') ?ls))
           (first_or [] (values_of (str ''EMAIL'') ?ls))
           (last_or [] (values_of (str ''ORG'') ?ls))
           (last_or [] (values_of (str ''X-EVENT-TAG'') ?ls))"
  have p: "parse s = Inr ?c"
  proof (cases "s = []")
    case True
    then show ?thesis
      by (simp add: parse_def split_runs_def name_values_def values_of_def entry_def trim_def
          List.map_filter_simps last_or_def first_or_def)
  next
    case False
    then show ?thesis by (simp add: parse_def parse_lines_general)
  qed
  have d: "dom ?c = UNIV"
    using parse_returns[of s] p by simp
  have "no_line s f \<longrightarrow> ?c f = Some []" for f
    by (cases f) (simp_all add: no_line_def mk_contact_apply last_or_def first_or_def)
  with p d show ?thesis by blast
qed

lemma extract_email_none:
  "match_global rx_email t = None \<Longrightarrow> extract_email c t = Inr c"
  by (simp add: extract_email_def)

lemma extract_name_none:
  "list_all (\<lambda>cl. type cl \<noteq> T_name \<and> type cl \<noteq> T_name_or_company) cls \<Longrightarrow>
   extract_name v c cls = Inr c"
proof -
  assume a: "list_all (\<lambda>cl. type cl \<noteq> T_name \<and> type cl \<noteq> T_name_or_company) cls"
  then have "filter (\<lambda>cl. type cl = T_name \<and> confidence cl \<ge> 9) cls = []"
    "filter (\<lambda>cl. type cl = T_name_or_company \<and> confidence cl \<ge> 6) cls = []"
    by (auto simp: list_all_iff filter_empty_conv)
  then show ?thesis by (simp add: extract_name_def)
qed

lemma extract_company_none:
  assumes "list_all (\<lambda>cl. type cl \<noteq> T_company \<and> type cl \<noteq> T_title \<and>
                         type cl \<noteq> T_name_or_company) cls"
  shows "extract_company v c cls = Inr c" and "normalizeFields v c cls = c"
proof -
  from assms have
    "filter (\<lambda>cl. (type cl = T_company \<and> confidence cl \<ge> 8) \<or>
                  (type cl = T_title \<and> confidence cl \<ge> 7)) cls = []"
    "filter (\<lambda>cl. type cl = T_name_or_company \<and> Some (original cl) \<noteq> c F_name \<and>
                  confidence cl \<ge> 6) cls = []"
    by (auto simp: list_all_iff filter_empty_conv)
  then show "extract_company v c cls = Inr c" by (simp add: extract_company_def)
  from assms have "find (\<lambda>cl. type cl = T_title \<or> (type cl = T_company \<and> confidence cl \<ge> 7)) cls = None"
    by (auto simp: list_all_iff find_None_iff)
  then show "normalizeFields v c cls = c" by (simp add: normalizeFields_def)
qed

lemma extractContactInfo_unresolved:
  "\<exists>c st'. extractContactInfo v st text = Inr (c, st') \<and>
     dom c = {F_name, F_phone, F_email, F_company} \<and>
     (\<forall>f. unresolved v st text f \<longrightarrow> c f = Some [])"
proof -
  have dm: "dom (mk4 n p e c) = {F_name, F_phone, F_email, F_company}" for n p e c
    by (auto simp: mk4_def split: if_splits)
  show ?thesis
  proof (cases "text = []")
    case True
    have "extractContactInfo v st text = Inr (mk4 [] [] [] [], st)"
      using True by (simp add: extractContactInfo_def contact0_mk4)
    moreover have "mk4 [] [] [] [] f = Some []" if "unresolved v st text f" for f
      using that by (cases f) (simp_all add: mk4_apply unresolved_def)
    ultimately show ?thesis using dm by blast
  next
    case False
    let ?t = "cleanText v text"
    let ?pm = "fst (match_phone (st\<lparr>email_lastIndex := 0\<rparr>) ?t)"
    let ?st1 = "snd (match_phone (st\<lparr>email_lastIndex := 0\<rparr>) ?t)"
    let ?p = "trim (first_phone_match ?t)"
    obtain e1 where 1: "extract_email contact0 ?t = Inr (mk4 [] [] e1 [])"
      and e1: "match_global rx_email ?t = None \<longrightarrow> e1 = []"
    proof (cases "match_global rx_email ?t = None")
      case True
      then show ?thesis using that[of "[]"] by (simp add: extract_email_none contact0_mk4)
    next
      case False
      then show ?thesis
        using that extract_email_mk4[of "[]" "[]" "[]" "[]" ?t] by (auto simp: contact0_mk4)
    qed
    have 2: "extract_phone (mk4 [] [] e1 []) ?pm = Inr (mk4 [] ?p e1 [])"
      by (simp add: extract_phone_mk4 match_phone_first)
    obtain ls where 3: "resplit v (text_lines v ?t) = Inr ls" using resplit_total by blast
    obtain cls st2 where 4: "classify_all ?st1 ls = Inr (cls, st2)"
      using classify_all_total by blast
    have cl: "classified_lines v st text = cls"
      using False 3 4 by (simp add: classified_lines_def Let_def split_beta)
    let ?un = "list_all (\<lambda>cl. type cl \<noteq> T_name \<and> type cl \<noteq> T_name_or_company) cls"
    let ?uc = "list_all (\<lambda>cl. type cl \<noteq> T_company \<and> type cl \<noteq> T_title \<and>
                         type cl \<noteq> T_name_or_company) cls"
    obtain n3 where 5: "extract_name v (mk4 [] ?p e1 []) cls = Inr (mk4 n3 ?p e1 [])"
      and n3: "?un \<longrightarrow> n3 = []"
    proof (cases ?un)
      case True
      then show ?thesis using that[of "[]"] by (simp add: extract_name_none)
    next
      case False
      then show ?thesis using that extract_name_mk4[of v "[]" ?p e1 "[]" cls] by auto
    qed
    obtain c4 where 6: "extract_company v (mk4 n3 ?p e1 []) cls = Inr (mk4 n3 ?p e1 c4)"
      and c4: "?uc \<longrightarrow> c4 = []"
    proof (cases ?uc)
      case True
      then show ?thesis using that[of "[]"] by (simp add: extract_company_none(1))
    next
      case False
      then show ?thesis using that extract_company_mk4[of v n3 ?p e1 "[]" cls] by auto
    qed
    obtain c5 where 7: "normalizeFields v (mk4 n3 ?p e1 c4) cls = mk4 n3 ?p e1 c5"
      and c5: "?uc \<longrightarrow> c5 = []"
    proof (cases ?uc)
      case True
      then show ?thesis using that[of c4] c4 by (simp add: extract_company_none(2))
    next
      case False
      then show ?thesis using that normalizeFields_mk4[of v n3 ?p e1 c4 cls] by auto
    qed
    let ?r = "final_cleaning v (mk4 n3 ?p e1 c5)"
    have r: "extractContactInfo v st text = Inr (?r, st2)"
      using False 1 2 3 4 5 6 7
      by (simp add: extractContactInfo_def Let_def split_beta contact0_mk4)
    have fc: "?r = mk4 (cleanText v n3) (if ?p = [] then [] else normalize_phone v ?p)
         (if e1 = [] then [] else toLowerCase (trim e1)) (cleanText v c5)"
      by (rule final_cleaning_mk4)
    have ce: "cleanText v [] = []" by (simp add: cleanText_def)
    have tp: "first_phone_match ?t = [] \<Longrightarrow> ?p = []" by (simp add: trim_def)
    have "?r f = Some []" if "unresolved v st text f" for f
      using that e1 n3 c5 tp unfolding fc
      by (cases f) (auto simp: mk4_apply unresolved_def cl ce)
    moreover have "dom ?r = {F_name, F_phone, F_email, F_company}"
      unfolding fc by (rule dm)
    ultimately show ?thesis using r by blast
  qed
qed

text \<open>
  Claim C6, as stated, fails for \<^verbatim>\<open>extractContactInfo\<close>: its record has no \<^verbatim>\<open>eventTag\<close>
  property, so reading it gives \<^verbatim>\<open>undefined\<close>.
\<close>

theorem eventTag_counterexample:
  "field_of F_eventTag (extractContactInfo Web new_patterns (str ''Jane Doe'')) = Inr None \<and>
   field_of F_eventTag (extractContactInfo Mobile new_patterns (str ''Jane Doe'')) = Inr None"
  by (simp add: field_of_def all_defs)

text \<open>
  Claim C6, amended. Every record that \<^verbatim>\<open>parse\<close> returns has all five properties, each
  a string, and each the empty string when the vCard has no counted line that sets it.
  Every record that \<^verbatim>\<open>extractContactInfo\<close> returns has exactly the four properties
  \<^verbatim>\<open>name\<close>, \<^verbatim>\<open>phone\<close>, \<^verbatim>\<open>email\<close> and \<^verbatim>\<open>company\<close>, each a string, and each the empty string
  when the call finds nothing for it: no match of the pattern for the email and the
  phone, no line of a fitting type for the name and the company.
\<close>

theorem record_fields:
  "(\<exists>c. parse s = Inr c \<and> dom c = UNIV \<and> (\<forall>f. no_line s f \<longrightarrow> c f = Some [])) \<and>
   (\<exists>c st'. extractContactInfo v st text = Inr (c, st') \<and>
      dom c = {F_name, F_phone, F_email, F_company} \<and>
      (\<forall>f. unresolved v st text f \<longrightarrow> c f = Some []))"
  using parse_no_line[of s] extractContactInfo_unresolved[of v st "text"] by blast

theorem record_fields_witness:
  "no_line (str ''FN:Jane Doe'') F_phone \<and> no_line (str ''FN:Jane Doe'') F_email \<and>
   no_line (str ''FN:Jane Doe'') F_company \<and> no_line (str ''FN:Jane Doe'') F_eventTag \<and>
   map_sum id (\<lambda>c. map c [F_name, F_phone, F_email, F_company, F_eventTag])
     (parse (str ''FN:Jane Doe'')) =
     Inr [Some (str ''Jane Doe''), Some [], Some [], Some [], Some []] \<and>
   unresolved Mobile new_patterns (str ''Jane Doe'') F_phone \<and>
   unresolved Mobile new_patterns (str ''Jane Doe'') F_email \<and>
   unresolved Mobile new_patterns (str ''Jane Doe'') F_company \<and>
   map_sum id (\<lambda>(c, st'). map c [F_name, F_phone, F_email, F_company, F_eventTag])
     (extractContactInfo Mobile new_patterns (str ''Jane Doe'')) =
     Inr [Some (str ''Jane Doe''), Some [], Some [], Some [], None]"
proof -
  have 1: "no_line (str ''FN:Jane Doe'') F_phone \<and> no_line (str ''FN:Jane Doe'') F_email \<and>
      no_line (str ''FN:Jane Doe'') F_company \<and> no_line (str ''FN:Jane Doe'') F_eventTag"
    by (simp add: no_line_def decoder_spec_defs string_defs char_defs)
  have 2: "map_sum id (\<lambda>c. map c [F_name, F_phone, F_email, F_company, F_eventTag])
      (parse (str ''FN:Jane Doe'')) =
      Inr [Some (str ''Jane Doe''), Some [], Some [], Some [], Some []]"
    by (simp add: mk_contact_def codec_defs string_defs char_defs)
  have 3: "unresolved Mobile new_patterns (str ''Jane Doe'') F_phone \<and>
      unresolved Mobile new_patterns (str ''Jane Doe'') F_email \<and>
      unresolved Mobile new_patterns (str ''Jane Doe'') F_company"
    by (simp add: unresolved_def classified_lines_def first_phone_match_def all_defs)
  have 4: "map_sum id (\<lambda>(c, st'). map c [F_name, F_phone, F_email, F_company, F_eventTag])
      (extractContactInfo Mobile new_patterns (str ''Jane Doe'')) =
      Inr [Some (str ''Jane Doe''), Some [], Some [], Some [], None]"
    by (simp add: all_defs)
  show ?thesis
    using record_fields [of "str ''FN:Jane Doe''" Mobile new_patterns "str ''Jane Doe''"]
      1 2 3 4
    by simp
qed

text \<open>
  Claim C10. For every engine state and every text, in both copies, the phone of the
  returned record consists of ASCII digits only (it may be empty); it holds no \<open>+\<close>.
\<close>

theorem inferred_phone_digits:
  "\<exists>c st' p. extractContactInfo v st text = Inr (c, st') \<and> c F_phone = Some p \<and>
     list_all is_digit p \<and> 43 \<notin> set p"
proof -
  from extractContactInfo_shape[of v st "text"] obtain n e c st' where
    r: "extractContactInfo v st text =
      Inr (mk4 n (normalize_phone v (first_phone_match (cleanText v text))) e c, st')"
    by blast
  let ?p = "normalize_phone v (first_phone_match (cleanText v text))"
  have d: "list_all is_digit ?p" by (rule phone_digits)
  then have "43 \<notin> set ?p" by (auto simp: list_all_iff is_digit_def)
  with r d show ?thesis by (auto simp: mk4_apply)
qed

theorem inferred_phone_digits_witness:
  "\<exists>c st' p. extractContactInfo Mobile new_patterns (str ''Tel: +44 (20) 7946-0958'') =
       Inr (c, st') \<and> c F_phone = Some p \<and> list_all is_digit p \<and> 43 \<notin> set p"
  using inferred_phone_digits [of Mobile new_patterns "str ''Tel: +44 (20) 7946-0958''"]
  by simp

end
